theory Spec2Isabelle
  imports Main
begin

section \<open>Python strings\<close>

text \<open>
  A Python \<open>str\<close> is a sequence of Unicode code points, so a text is a list of natural
  numbers (the code points); \<open>[10]\<close> is the string holding one line feed and \<open>[32]\<close> the
  string holding one space. Names that are compared literally by the program
  (\<open>'native'\<close>, \<open>'scanned'\<close>, image modes, exception messages) stay HOL strings.
\<close>

type_synonym ustring = "nat list"

text \<open>
  The code points that \<open>str.split()\<close> and \<open>str.strip()\<close> treat as whitespace
  (those for which \<open>str.isspace\<close> holds): TAB..CR, FS..US, SPACE, NEL, NBSP, OGHAM SPACE
  MARK, EN QUAD..HAIR SPACE, LINE and PARAGRAPH SEPARATOR, NARROW NBSP, MEDIUM MATHEMATICAL
  SPACE and IDEOGRAPHIC SPACE.
\<close>

definition is_space :: "nat \<Rightarrow> bool" where
  "is_space c \<longleftrightarrow>
     (9 \<le> c \<and> c \<le> 13) \<or> (28 \<le> c \<and> c \<le> 32) \<or> c = 133 \<or> c = 160 \<or> c = 5760 \<or>
     (8192 \<le> c \<and> c \<le> 8202) \<or> c = 8232 \<or> c = 8233 \<or> c = 8239 \<or> c = 8287 \<or> c = 12288"

text \<open>
  \<open>s.split()\<close> with no argument: skip a run of whitespace, stop at the end of the string,
  otherwise take the characters up to the next whitespace as one word, and repeat.
\<close>

function split_ws :: "ustring \<Rightarrow> ustring list" where
  "split_ws s =
     (case dropWhile is_space s of
        [] \<Rightarrow> []
      | c # r \<Rightarrow> (c # takeWhile (\<lambda>x. \<not> is_space x) r)
                 # split_ws (dropWhile (\<lambda>x. \<not> is_space x) r))"
  by pat_completeness auto
termination
proof (relation "measure length")
  show "wf (measure length)" by simp
next
  fix s :: ustring and c r
  assume h: "dropWhile is_space s = c # r"
  have "length (dropWhile (\<lambda>x. \<not> is_space x) r) \<le> length r"
    by (rule length_dropWhile_le)
  moreover have "length (c # r) \<le> length s"
    using length_dropWhile_le [of is_space s] h by simp
  ultimately show "(dropWhile (\<lambda>x. \<not> is_space x) r, s) \<in> measure length"
    by simp
qed

declare split_ws.simps [simp del]

text \<open>\<open>s.strip()\<close>: drop the leading and the trailing whitespace.\<close>

definition strip_ws :: "ustring \<Rightarrow> ustring" where
  "strip_ws s = rev (dropWhile is_space (rev (dropWhile is_space s)))"

text \<open>\<open>sep.join(xs)\<close>.\<close>

fun join_str :: "ustring \<Rightarrow> ustring list \<Rightarrow> ustring" where
  "join_str sep [] = []"
| "join_str sep [x] = x"
| "join_str sep (x # y # ys) = x @ sep @ join_str sep (y # ys)"

text \<open>
  The normalisation expression that all three extraction functions apply to their raw text,
  \<open>unicodedata.normalize('NFC', ' '.join(text.split()))\<close>. The composition tables of
  \<open>unicodedata\<close> are not part of the repository: the function \<open>nfc\<close> is a parameter.
\<close>

definition normalize_text :: "(ustring \<Rightarrow> ustring) \<Rightarrow> ustring \<Rightarrow> ustring" where
  "normalize_text nfc text = nfc (join_str [32] (split_ws text))"

text \<open>The shape of a text whose only whitespace is single spaces between words.\<close>

fun no_adjacent_spaces :: "ustring \<Rightarrow> bool" where
  "no_adjacent_spaces (a # b # r) = (\<not> (a = 32 \<and> b = 32) \<and> no_adjacent_spaces (b # r))"
| "no_adjacent_spaces s = True"

definition single_spaced :: "ustring \<Rightarrow> bool" where
  "single_spaced t \<longleftrightarrow>
     (\<forall>c\<in>set t. is_space c \<longrightarrow> c = 32) \<and>
     (t \<noteq> [] \<longrightarrow> \<not> is_space (hd t) \<and> \<not> is_space (last t)) \<and>
     no_adjacent_spaces t"

text \<open>A word, as \<open>split\<close> produces it: non-empty and free of whitespace.\<close>

definition is_word :: "ustring \<Rightarrow> bool" where
  "is_word w \<longleftrightarrow> w \<noteq> [] \<and> (\<forall>c\<in>set w. \<not> is_space c)"

section \<open>Exceptions, external calls and traced results\<close>

text \<open>
  Every failure the program handles is a Python \<open>Exception\<close>: the \<open>ValueError\<close> raised by
  native extraction itself, or whatever a library call raises. Each \<open>except Exception\<close>
  clause of the source catches both. An exception raised by a library need not have a
  text: \<open>Unprintable e\<close> is an exception whose \<open>__str__\<close> raises \<open>e\<close> instead of
  returning (and \<open>e\<close> may be unprintable in turn).
\<close>

datatype exn = ValueError string | LibraryError string | Unprintable exn

text \<open>\<open>str(e)\<close>: the message, or the exception that \<open>__str__\<close> raises.\<close>

fun str_exn :: "exn \<Rightarrow> exn + string" where
  "str_exn (ValueError m) = Inr m"
| "str_exn (LibraryError m) = Inr m"
| "str_exn (Unprintable e) = Inl e"

text \<open>
  The calls to the external libraries (pdfplumber, pdf2image, pytesseract, Pillow), in the
  order in which a run makes them. A page of an open PDF is a value of type \<open>'page\<close>, a
  Pillow image a value of type \<open>'img\<close>.
\<close>

datatype ('page, 'img) call =
    PdfOpen ustring
  | ExtractText 'page
  | ConvertFromPath ustring nat
  | ImageToString 'img ustring
  | ImageOpen ustring
  | Convert string
  | ContrastEnhance int
  | Point string
  | MedianFilter

text \<open>
  The libraries themselves are parameters: each call either raises or returns.
  \<open>extract_text\<close> returns \<open>None\<close> or a string, as pdfplumber does.
\<close>

record ('page, 'img) env =
  pdfplumber_open :: "ustring \<Rightarrow> exn + 'page list"
  extract_text :: "'page \<Rightarrow> exn + ustring option"
  convert_from_path :: "ustring \<Rightarrow> nat \<Rightarrow> exn + 'img list"
  image_to_string :: "'img \<Rightarrow> ustring \<Rightarrow> exn + ustring"
  normalize_NFC :: "ustring \<Rightarrow> ustring"
  image_open :: "ustring \<Rightarrow> exn + 'img"
  convert :: "string \<Rightarrow> 'img \<Rightarrow> exn + 'img"
  contrast_enhance :: "int \<Rightarrow> 'img \<Rightarrow> exn + 'img"
  point :: "(int \<Rightarrow> int) \<Rightarrow> string \<Rightarrow> 'img \<Rightarrow> exn + 'img"
  median_filter :: "'img \<Rightarrow> exn + 'img"

text \<open>
  A run of a function is the list of library calls it made together with its outcome:
  \<open>Inl e\<close> when it raised \<open>e\<close>, \<open>Inr v\<close> when it returned \<open>v\<close>. The logging calls of the
  source write to the log only and are not modelled, with one exception: where the message
  is an f-string holding \<open>{e}\<close> for the caught exception \<open>e\<close>, the f-string is evaluated
  before the logging call and evaluates \<open>str(e)\<close>, which can raise. That is \<open>log_exn\<close>.
\<close>

type_synonym ('c, 'a) run = "'c list \<times> (exn + 'a)"

definition ret :: "'a \<Rightarrow> ('c, 'a) run" where
  "ret v = ([], Inr v)"

definition raise :: "exn \<Rightarrow> ('c, 'a) run" where
  "raise e = ([], Inl e)"

definition lib :: "'c \<Rightarrow> exn + 'a \<Rightarrow> ('c, 'a) run" where
  "lib c r = ([c], r)"

definition bind :: "('c, 'a) run \<Rightarrow> ('a \<Rightarrow> ('c, 'b) run) \<Rightarrow> ('c, 'b) run" where
  "bind m f =
     (case m of
        (tr, Inl e) \<Rightarrow> (tr, Inl e)
      | (tr, Inr v) \<Rightarrow> (case f v of (tr', r) \<Rightarrow> (tr @ tr', r)))"

definition try_except :: "('c, 'a) run \<Rightarrow> (exn \<Rightarrow> ('c, 'a) run) \<Rightarrow> ('c, 'a) run" where
  "try_except m handler =
     (case m of
        (tr, Inl e) \<Rightarrow> (case handler e of (tr', r) \<Rightarrow> (tr @ tr', r))
      | (tr, Inr v) \<Rightarrow> (tr, Inr v))"

definition log_exn :: "exn \<Rightarrow> ('c, unit) run" where
  "log_exn e = (case str_exn e of Inl e' \<Rightarrow> raise e' | Inr m \<Rightarrow> ret ())"

section \<open>The PDF parser\<close>

text \<open>\<open>if text:\<close> on the value of \<open>page.extract_text()\<close>: neither \<open>None\<close> nor empty.\<close>

definition truthy :: "ustring option \<Rightarrow> bool" where
  "truthy text = (case text of None \<Rightarrow> False | Some s \<Rightarrow> s \<noteq> [])"

text \<open>The page loop of \<open>parse_khmer_text_native\<close>, with the list it appends to.\<close>

fun native_pages ::
  "('page, 'img) env \<Rightarrow> 'page list \<Rightarrow> ustring list \<Rightarrow> (('page, 'img) call, ustring list) run"
where
  "native_pages E [] extracted_text = ret extracted_text"
| "native_pages E (page # rest) extracted_text =
     bind (lib (ExtractText page) (extract_text E page)) (\<lambda>text.
       native_pages E rest
         (case text of
            None \<Rightarrow> extracted_text
          | Some s \<Rightarrow> if s \<noteq> [] then extracted_text @ [s] else extracted_text))"

definition parse_khmer_text_native ::
  "('page, 'img) env \<Rightarrow> ustring \<Rightarrow> (('page, 'img) call, ustring) run"
where
  "parse_khmer_text_native E pdf_path =
     try_except
       (bind (lib (PdfOpen pdf_path) (pdfplumber_open E pdf_path)) (\<lambda>pages.
        bind (native_pages E pages []) (\<lambda>extracted_text.
          let full_text = join_str [10] extracted_text in
          if strip_ws full_text = []
          then raise (ValueError ''No text extracted. The PDF might be scanned images.'')
          else ret (normalize_text (normalize_NFC E) full_text))))
       (\<lambda>e. bind (log_exn e) (\<lambda>_. raise e))"

text \<open>The page loop of \<open>parse_khmer_text_scanned\<close>: every OCR output is appended.\<close>

fun scanned_pages ::
  "('page, 'img) env \<Rightarrow> 'img list \<Rightarrow> ustring \<Rightarrow> ustring list \<Rightarrow>
   (('page, 'img) call, ustring list) run"
where
  "scanned_pages E [] lang extracted_text = ret extracted_text"
| "scanned_pages E (page # rest) lang extracted_text =
     bind (lib (ImageToString page lang) (image_to_string E page lang)) (\<lambda>text.
       scanned_pages E rest lang (extracted_text @ [text]))"

definition parse_khmer_text_scanned ::
  "('page, 'img) env \<Rightarrow> ustring \<Rightarrow> ustring \<Rightarrow> (('page, 'img) call, ustring) run"
where
  "parse_khmer_text_scanned E pdf_path lang =
     try_except
       (bind (lib (ConvertFromPath pdf_path 300) (convert_from_path E pdf_path 300)) (\<lambda>pages.
        bind (scanned_pages E pages lang []) (\<lambda>extracted_text.
          let full_text = join_str [10] extracted_text in
          ret (normalize_text (normalize_NFC E) full_text))))
       (\<lambda>e. bind (log_exn e) (\<lambda>_. raise e))"

text \<open>
  The page loop of \<open>detect_pdf_type\<close>: it returns \<open>'native'\<close> from inside the loop, and
  \<open>'scanned'\<close> is the statement after the loop.
\<close>

fun detect_pages ::
  "('page, 'img) env \<Rightarrow> 'page list \<Rightarrow> (('page, 'img) call, string) run"
where
  "detect_pages E [] = ret ''scanned''"
| "detect_pages E (page # rest) =
     bind (lib (ExtractText page) (extract_text E page)) (\<lambda>text.
       if truthy text then ret ''native'' else detect_pages E rest)"

definition detect_pdf_type ::
  "('page, 'img) env \<Rightarrow> ustring \<Rightarrow> (('page, 'img) call, string) run"
where
  "detect_pdf_type E pdf_path =
     try_except
       (bind (lib (PdfOpen pdf_path) (pdfplumber_open E pdf_path)) (\<lambda>pages.
          detect_pages E pages))
       (\<lambda>e. bind (log_exn e) (\<lambda>_. ret ''scanned''))"

text \<open>
  \<open>parse_pdf\<close>. The call of \<open>detect_pdf_type\<close> stands outside every \<open>try\<close>, so an exception
  leaving it leaves \<open>parse_pdf\<close> too; the result \<open>None\<close> is \<open>Inr None\<close>. Of the three
  handlers only the one of the OCR fallback puts the exception into its log message; the
  other two log a fixed text.
\<close>

definition parse_pdf ::
  "('page, 'img) env \<Rightarrow> ustring \<Rightarrow> ustring \<Rightarrow> (('page, 'img) call, ustring option) run"
where
  "parse_pdf E pdf_path lang =
     bind (detect_pdf_type E pdf_path) (\<lambda>pdf_type.
       if pdf_type = ''native'' then
         try_except
           (bind (parse_khmer_text_native E pdf_path) (\<lambda>text. ret (Some text)))
           (\<lambda>_. try_except
                  (bind (parse_khmer_text_scanned E pdf_path lang) (\<lambda>text. ret (Some text)))
                  (\<lambda>e. bind (log_exn e) (\<lambda>_. ret None)))
       else if pdf_type = ''scanned'' then
         try_except
           (bind (parse_khmer_text_scanned E pdf_path lang) (\<lambda>text. ret (Some text)))
           (\<lambda>_. ret None)
       else ret None)"

section \<open>The image recogniser\<close>

text \<open>The thresholding function handed to \<open>Image.point\<close>: \<open>lambda x: 0 if x < 140 else 255\<close>.\<close>

definition threshold :: "int \<Rightarrow> int" where
  "threshold x = (if x < 140 then 0 else 255)"

definition preprocess_image ::
  "('page, 'img) env \<Rightarrow> ustring \<Rightarrow> (('page, 'img) call, 'img) run"
where
  "preprocess_image E image_path =
     try_except
       (bind (lib (ImageOpen image_path) (image_open E image_path)) (\<lambda>img.
        bind (lib (Convert ''L'') (convert E ''L'' img)) (\<lambda>img.
        bind (lib (ContrastEnhance 2) (contrast_enhance E 2 img)) (\<lambda>img.
        bind (lib (Point ''1'') (point E threshold ''1'' img)) (\<lambda>img.
        bind (lib MedianFilter (median_filter E img)) (\<lambda>img.
          ret img))))))
       (\<lambda>e. bind (log_exn e) (\<lambda>_. raise e))"

text \<open>The Pillow image is called \<open>img\<close> here (\<open>image\<close> in the source).\<close>

definition extract_text_from_image ::
  "('page, 'img) env \<Rightarrow> 'img \<Rightarrow> ustring \<Rightarrow> (('page, 'img) call, ustring) run"
where
  "extract_text_from_image E img lang =
     try_except
       (bind (lib (ImageToString img lang) (image_to_string E img lang)) (\<lambda>text.
          ret (normalize_text (normalize_NFC E) text)))
       (\<lambda>e. bind (log_exn e) (\<lambda>_. raise e))"

definition parse_image ::
  "('page, 'img) env \<Rightarrow> ustring \<Rightarrow> ustring option \<Rightarrow> ustring \<Rightarrow>
   (('page, 'img) call, ustring option) run"
where
  "parse_image E image_path output_path lang =
     try_except
       (bind (preprocess_image E image_path) (\<lambda>preprocessed_image.
        bind (extract_text_from_image E preprocessed_image lang) (\<lambda>extracted_text.
          ret (Some extracted_text))))
       (\<lambda>e. bind (log_exn e) (\<lambda>_. ret None))"

section \<open>Vocabulary of the statements\<close>


text \<open>An exception whose text can be put into a log message.\<close>

definition printable :: "exn \<Rightarrow> bool" where
  "printable e = (case str_exn e of Inl _ \<Rightarrow> False | Inr _ \<Rightarrow> True)"

text \<open>
  The exception that leaves a handler which logs the caught exception \<open>e\<close> in an f-string
  and re-raises: \<open>e\<close> itself, or what \<open>str(e)\<close> raised.
\<close>

definition reraised :: "exn \<Rightarrow> exn" where
  "reraised e = (case str_exn e of Inl e' \<Rightarrow> e' | Inr _ \<Rightarrow> e)"

text \<open>What a page yields when it has no text, or whitespace only.\<close>

definition blank :: "ustring option \<Rightarrow> bool" where
  "blank text = (case text of None \<Rightarrow> True | Some s \<Rightarrow> \<forall>c\<in>set s. is_space c)"

section \<open>Sample documents\<close>

text \<open>
  A fragment of NFC for the examples: it composes LATIN SMALL LETTER E followed by
  COMBINING ACUTE ACCENT into LATIN SMALL LETTER E WITH ACUTE and leaves every other code
  point as it is.
\<close>

fun compose_e_acute :: "ustring \<Rightarrow> ustring" where
  "compose_e_acute (a # b # r) =
     (if a = 101 \<and> b = 769 then 233 # compose_e_acute r else a # compose_e_acute (b # r))"
| "compose_e_acute s = s"

text \<open>
  Concrete libraries for the examples: pages and images are numbered. Page 0 has no text
  layer, page 1 carries Khmer text, reading page 2 raises, reading page 4 raises an
  exception whose \<open>__str__\<close> raises, every other page holds only a space and a line feed.
  OCR reads Khmer text from the images 0 and 1, raises on image 2, reads from image 5 the
  words of images 0 and 1 together, and finds nothing on any other image, except that on
  image 7 it raises an exception whose \<open>__str__\<close> raises, and on image 6 one whose
  \<open>__str__\<close> raises an exception of that kind again.
\<close>

definition sample_text :: "nat \<Rightarrow> exn + ustring option" where
  "sample_text q =
     (if q = 0 then Inr None
      else if q = 1 then Inr (Some [6047, 6077])
      else if q = 2 then Inl (LibraryError ''damaged page'')
      else if q = 4 then Inl (Unprintable (LibraryError ''__str__ failed''))
      else Inr (Some [32, 10]))"

definition sample_ocr :: "nat \<Rightarrow> exn + ustring" where
  "sample_ocr i =
     (if i = 0 then Inr [6047, 6077, 10]
      else if i = 1 then Inr [32, 6016, 9, 6017]
      else if i = 2 then Inl (LibraryError ''tesseract failed'')
      else if i = 5 then Inr [6047, 6077, 32, 6016, 32, 6017]
      else if i = 6 then Inl (Unprintable (Unprintable (LibraryError ''__str__ failed'')))
      else if i = 7 then Inl (Unprintable (LibraryError ''__str__ failed''))
      else Inr [])"

definition sample_env :: "nat list \<Rightarrow> nat list \<Rightarrow> (nat, nat) env" where
  "sample_env pages images =
     \<lparr> pdfplumber_open = (\<lambda>_. Inr pages),
       extract_text = sample_text,
       convert_from_path = (\<lambda>_ _. Inr images),
       image_to_string = (\<lambda>i _. sample_ocr i),
       normalize_NFC = compose_e_acute,
       image_open = (\<lambda>_. Inl (LibraryError ''cannot identify image file'')),
       convert = (\<lambda>_ i. Inr i),
       contrast_enhance = (\<lambda>_ i. Inr i),
       point = (\<lambda>_ _ i. Inr i),
       median_filter = (\<lambda>i. Inr i) \<rparr>"

text \<open>A file that neither pdfplumber nor pdf2image can read.\<close>

definition unreadable_env :: "(nat, nat) env" where
  "unreadable_env =
     (sample_env [] [])
       \<lparr> pdfplumber_open := (\<lambda>_. Inl (LibraryError ''cannot open'')),
         convert_from_path := (\<lambda>_ _. Inl (LibraryError ''cannot rasterize'')) \<rparr>"

text \<open>A file on which pdfplumber raises an exception whose \<open>__str__\<close> raises.\<close>

definition unprintable_env :: "(nat, nat) env" where
  "unprintable_env =
     (sample_env [] [])
       \<lparr> pdfplumber_open := (\<lambda>_. Inl (Unprintable (LibraryError ''__str__ failed''))) \<rparr>"

text \<open>
  A library for the image recogniser, with a greyscale image as the list of its pixel
  values: one readable file of four pixels, a contrast enhancement around mid-grey, and a
  point operation that applies the given function to every pixel.
\<close>

definition pixel_env :: "(nat, int list) env" where
  "pixel_env =
     \<lparr> pdfplumber_open = (\<lambda>_. Inl (LibraryError ''not a PDF'')),
       extract_text = (\<lambda>_. Inr None),
       convert_from_path = (\<lambda>_ _. Inl (LibraryError ''not a PDF'')),
       image_to_string = (\<lambda>im _. if 0 \<in> set im then Inr [10, 6016, 32, 32, 6017, 10] else Inr []),
       normalize_NFC = compose_e_acute,
       image_open = (\<lambda>p. if p = [97] then Inr [12, 200, 139, 140]
                          else Inl (LibraryError ''cannot identify image file'')),
       convert = (\<lambda>_ im. Inr im),
       contrast_enhance = (\<lambda>f im. Inr (map (\<lambda>x. max 0 (min 255 (128 + f * (x - 128)))) im)),
       point = (\<lambda>f _ im. Inr (map f im)),
       median_filter = (\<lambda>im. Inr im) \<rparr>"

section \<open>Splitting, joining and stripping\<close>

lemma is_space_32: "is_space 32"
  by (simp add: is_space_def)

lemma is_space_10: "is_space 10"
  by (simp add: is_space_def)

lemma split_ws_Nil: "split_ws [] = []"
  by (simp add: split_ws.simps)

lemma split_ws_space: "is_space c \<Longrightarrow> split_ws (c # s) = split_ws s"
  by (simp add: split_ws.simps [of "c # s"] split_ws.simps [of s])

lemma split_ws_nonspace:
  "\<not> is_space c \<Longrightarrow>
   split_ws (c # s) =
     (c # takeWhile (\<lambda>x. \<not> is_space x) s) # split_ws (dropWhile (\<lambda>x. \<not> is_space x) s)"
  by (simp add: split_ws.simps [of "c # s"])

lemma split_ws_words: "w \<in> set (split_ws s) \<Longrightarrow> is_word w"
proof (induction s arbitrary: w rule: split_ws.induct)
  case (1 s)
  show ?case
  proof (cases "dropWhile is_space s")
    case Nil
    with "1.prems" show ?thesis by (simp add: split_ws.simps [of s])
  next
    case (Cons c r)
    have c: "\<not> is_space c" using hd_dropWhile [of is_space s] Cons by simp
    from "1.prems" Cons
    consider "w = c # takeWhile (\<lambda>x. \<not> is_space x) r"
      | "w \<in> set (split_ws (dropWhile (\<lambda>x. \<not> is_space x) r))"
      by (auto simp: split_ws.simps [of s])
    then show ?thesis
    proof cases
      case 1
      then show ?thesis using c by (auto simp: is_word_def dest: set_takeWhileD)
    next
      case 2
      then show ?thesis using "1.IH" Cons by simp
    qed
  qed
qed

lemma split_ws_word_then_space:
  assumes w: "is_word w"
  shows "split_ws (w @ 32 # s) = w # split_ws s"
proof -
  from w obtain c r where wr: "w = c # r" by (cases w) (auto simp: is_word_def)
  from w wr have c: "\<not> is_space c" and r: "\<forall>x\<in>set r. \<not> is_space x"
    by (auto simp: is_word_def)
  have t: "takeWhile (\<lambda>x. \<not> is_space x) (r @ 32 # s) = r"
    using r is_space_32 by (simp add: takeWhile_append2)
  have d: "dropWhile (\<lambda>x. \<not> is_space x) (r @ 32 # s) = 32 # s"
    using r is_space_32 by (simp add: dropWhile_append2)
  show ?thesis
    unfolding wr using c by (simp add: split_ws_nonspace t d split_ws_space is_space_32)
qed

lemma split_ws_single:
  assumes w: "is_word w"
  shows "split_ws w = [w]"
proof -
  from w obtain c r where wr: "w = c # r" by (cases w) (auto simp: is_word_def)
  from w wr have c: "\<not> is_space c" and r: "\<forall>x\<in>set r. \<not> is_space x"
    by (auto simp: is_word_def)
  from r have t: "takeWhile (\<lambda>x. \<not> is_space x) r = r"
    and d: "dropWhile (\<lambda>x. \<not> is_space x) r = []"
    by simp_all
  show ?thesis unfolding wr using c by (simp add: split_ws_nonspace t d split_ws_Nil)
qed

lemma split_join_words:
  "\<forall>w\<in>set ws. is_word w \<Longrightarrow> split_ws (join_str [32] ws) = ws"
proof (induction "[32::nat]" ws rule: join_str.induct)
  case 1
  show ?case by (simp add: split_ws_Nil)
next
  case (2 x)
  then show ?case by (simp add: split_ws_single)
next
  case (3 x y ys)
  then show ?case by (simp add: split_ws_word_then_space)
qed

lemma join_split_idem:
  "join_str [32] (split_ws (join_str [32] (split_ws s))) = join_str [32] (split_ws s)"
  by (simp add: split_join_words split_ws_words)

lemma set_join_words:
  "c \<in> set (join_str [32] ws) \<Longrightarrow> c = 32 \<or> (\<exists>w\<in>set ws. c \<in> set w)"
  by (induction "[32::nat]" ws rule: join_str.induct) auto

lemma join_words_nonempty:
  "\<forall>w\<in>set ws. is_word w \<Longrightarrow> ws \<noteq> [] \<Longrightarrow> join_str [32] ws \<noteq> []"
  by (induction "[32::nat]" ws rule: join_str.induct) (auto simp: is_word_def)

lemma hd_join_words:
  "\<forall>w\<in>set ws. is_word w \<Longrightarrow> ws \<noteq> [] \<Longrightarrow> hd (join_str [32] ws) = hd (hd ws)"
  by (induction "[32::nat]" ws rule: join_str.induct) (auto simp: is_word_def)

lemma last_join_words:
  "\<forall>w\<in>set ws. is_word w \<Longrightarrow> ws \<noteq> [] \<Longrightarrow> last (join_str [32] ws) = last (last ws)"
proof (induction "[32::nat]" ws rule: join_str.induct)
  case 1
  then show ?case by simp
next
  case (2 x)
  then show ?case by simp
next
  case (3 x y ys)
  then have "join_str [32] (y # ys) \<noteq> []" by (simp add: join_words_nonempty)
  with 3 show ?case by simp
qed

lemma no_adjacent_spaces_word_append:
  "\<forall>c\<in>set w. c \<noteq> 32 \<Longrightarrow> no_adjacent_spaces t \<Longrightarrow> no_adjacent_spaces (w @ t)"
proof (induction w)
  case Nil
  then show ?case by simp
next
  case (Cons a w)
  then have "no_adjacent_spaces (w @ t)" by simp
  moreover have "a \<noteq> 32" using Cons.prems by simp
  ultimately show ?case by (cases "w @ t") simp_all
qed

lemma no_adjacent_spaces_join:
  "\<forall>w\<in>set ws. is_word w \<Longrightarrow> no_adjacent_spaces (join_str [32] ws)"
proof (induction "[32::nat]" ws rule: join_str.induct)
  case 1
  show ?case by simp
next
  case (2 x)
  then have "\<forall>c\<in>set x. c \<noteq> 32" using is_space_32 by (auto simp: is_word_def)
  then show ?case using no_adjacent_spaces_word_append [of x "[]"] by simp
next
  case (3 x y ys)
  have x: "\<forall>c\<in>set x. c \<noteq> 32" using 3 is_space_32 by (auto simp: is_word_def)
  have rest: "no_adjacent_spaces (join_str [32] (y # ys))" using 3 by simp
  have ne: "join_str [32] (y # ys) \<noteq> []" using 3 by (simp add: join_words_nonempty)
  have "hd (join_str [32] (y # ys)) = hd y" using 3 by (simp add: hd_join_words)
  moreover have "hd y \<noteq> 32" using 3 is_space_32 by (cases y) (auto simp: is_word_def)
  ultimately have "no_adjacent_spaces (32 # join_str [32] (y # ys))"
    using rest ne by (cases "join_str [32] (y # ys)") simp_all
  then show ?case using x no_adjacent_spaces_word_append [of x] by simp
qed

lemma single_spaced_join:
  assumes ws: "\<forall>w\<in>set ws. is_word w"
  shows "single_spaced (join_str [32] ws)"
proof -
  have a: "\<forall>c\<in>set (join_str [32] ws). is_space c \<longrightarrow> c = 32"
    using ws by (auto simp: is_word_def dest!: set_join_words)
  have b: "join_str [32] ws \<noteq> [] \<longrightarrow>
      \<not> is_space (hd (join_str [32] ws)) \<and> \<not> is_space (last (join_str [32] ws))"
  proof
    assume ne: "join_str [32] ws \<noteq> []"
    then have wsne: "ws \<noteq> []" by auto
    then have "is_word (hd ws)" "is_word (last ws)" using ws by simp_all
    then have "\<not> is_space (hd (hd ws))" "\<not> is_space (last (last ws))"
      by (simp_all add: is_word_def)
    then show "\<not> is_space (hd (join_str [32] ws)) \<and> \<not> is_space (last (join_str [32] ws))"
      using ws wsne by (simp add: hd_join_words last_join_words)
  qed
  show ?thesis
    unfolding single_spaced_def using a b no_adjacent_spaces_join [OF ws] by blast
qed

lemma single_spaced_fixed_point:
  "join_str [32] (split_ws t) = t \<Longrightarrow> single_spaced t"
  using single_spaced_join [of "split_ws t"] split_ws_words by auto

lemma strip_ws_empty_iff: "strip_ws t = [] \<longleftrightarrow> (\<forall>c\<in>set t. is_space c)"
proof
  assume "strip_ws t = []"
  then have "dropWhile is_space (rev (dropWhile is_space t)) = []"
    by (simp add: strip_ws_def)
  then have "\<forall>c\<in>set (rev (dropWhile is_space t)). is_space c"
    by (simp add: dropWhile_eq_Nil_conv)
  then have "\<forall>c\<in>set (dropWhile is_space t). is_space c" by simp
  then have "dropWhile is_space t = []"
    using hd_dropWhile [of is_space t] by (cases "dropWhile is_space t") auto
  then show "\<forall>c\<in>set t. is_space c" by (simp add: dropWhile_eq_Nil_conv)
next
  assume "\<forall>c\<in>set t. is_space c"
  then have d: "dropWhile is_space t = []" by simp
  show "strip_ws t = []" unfolding strip_ws_def d by simp
qed

lemma split_ws_empty_iff: "split_ws s = [] \<longleftrightarrow> (\<forall>c\<in>set s. is_space c)"
proof (cases "dropWhile is_space s")
  case Nil
  have a: "split_ws s = []" unfolding split_ws.simps [of s] Nil by simp
  have b: "\<forall>c\<in>set s. is_space c" using Nil by simp
  show ?thesis using a b by simp
next
  case (Cons c r)
  have a: "split_ws s \<noteq> []" unfolding split_ws.simps [of s] Cons by simp
  have b: "\<not> (\<forall>c\<in>set s. is_space c)"
    using Cons dropWhile_eq_Nil_conv [of is_space s] by auto
  show ?thesis using a b by simp
qed

lemma no_adjacent_spaces_suffix:
  "no_adjacent_spaces (xs @ ys) \<Longrightarrow> no_adjacent_spaces ys"
proof (induction xs)
  case Nil
  then show ?case by simp
next
  case (Cons x xs)
  then have "no_adjacent_spaces (xs @ ys)" by (cases "xs @ ys") simp_all
  then show ?case by (rule Cons.IH)
qed

lemma single_spaced_join_split:
  "single_spaced t \<Longrightarrow> join_str [32] (split_ws t) = t"
proof (induction "length t" arbitrary: t rule: less_induct)
  case less
  show ?case
  proof (cases t)
    case Nil
    then show ?thesis by (simp add: split_ws_Nil)
  next
    case (Cons c r)
    have c: "\<not> is_space c" using less.prems Cons by (simp add: single_spaced_def)
    let ?w = "c # takeWhile (\<lambda>x. \<not> is_space x) r"
    let ?rest = "dropWhile (\<lambda>x. \<not> is_space x) r"
    have t: "t = ?w @ ?rest" using Cons by simp
    have sp: "split_ws t = ?w # split_ws ?rest"
      using c Cons by (simp add: split_ws_nonspace)
    show ?thesis
    proof (cases ?rest)
      case Nil
      have "join_str [32] (split_ws t) = ?w" unfolding sp Nil by (simp add: split_ws_Nil)
      moreover have "t = ?w" using t unfolding Nil by simp
      ultimately show ?thesis by simp
    next
      case rest: (Cons d r')
      have "is_space d" using hd_dropWhile [of "\<lambda>x. \<not> is_space x" r] rest by simp
      moreover have "d \<in> set t" using t rest by simp
      ultimately have d: "d = 32" using less.prems by (simp add: single_spaced_def)
      have t': "t = ?w @ 32 # r'" using t rest d by simp
      have r'ne: "r' \<noteq> []"
      proof
        assume "r' = []"
        then have "last t = 32" using t' by simp
        then show False using less.prems Cons is_space_32 by (simp add: single_spaced_def)
      qed
      then obtain x r'' where r': "r' = x # r''" by (cases r') auto
      have "no_adjacent_spaces t" using less.prems by (simp add: single_spaced_def)
      then have adj: "no_adjacent_spaces (32 # x # r'')"
        using t' r' no_adjacent_spaces_suffix [of ?w "32 # x # r''"] by simp
      then have x32: "x \<noteq> 32" by simp
      have "x \<in> set t" using t' r' by simp
      then have x: "\<not> is_space x" using x32 less.prems by (auto simp: single_spaced_def)
      have "last r' = last t" using t' r'ne by simp
      then have lst: "\<not> is_space (last r')"
        using less.prems Cons by (simp add: single_spaced_def)
      have "set r' \<subseteq> set t" using t' by auto
      then have all: "\<forall>c\<in>set r'. is_space c \<longrightarrow> c = 32"
        using less.prems by (auto simp: single_spaced_def)
      have "no_adjacent_spaces r'" using adj r' by simp
      then have ss: "single_spaced r'"
        using all x lst r' by (simp add: single_spaced_def)
      have "length r' < length t" using t' by simp
      then have ih: "join_str [32] (split_ws r') = r'" using less.hyps ss by blast
      have "split_ws r' \<noteq> []" using x r' by (simp add: split_ws_empty_iff)
      then obtain u us where us: "split_ws r' = u # us" by (cases "split_ws r'") auto
      have "split_ws ?rest = split_ws r'"
        using rest d is_space_32 by (simp add: split_ws_space)
      then have "join_str [32] (split_ws t) = ?w @ [32] @ join_str [32] (split_ws r')"
        using sp us by simp
      then show ?thesis using ih t' by simp
    qed
  qed
qed

lemma collapsed_iff_single_spaced:
  "join_str [32] (split_ws t) = t \<longleftrightarrow> single_spaced t"
  using single_spaced_fixed_point single_spaced_join_split by blast

section \<open>The sample fragment of NFC\<close>

lemma compose_e_acute_nonempty: "compose_e_acute s = [] \<longleftrightarrow> s = []"
  by (induction s rule: compose_e_acute.induct) auto

lemma hd_compose_e_acute:
  "s \<noteq> [] \<Longrightarrow> hd (compose_e_acute s) = hd s \<or> hd (compose_e_acute s) = 233"
  by (induction s rule: compose_e_acute.induct) auto

lemma compose_e_acute_idem: "compose_e_acute (compose_e_acute s) = compose_e_acute s"
proof (induction s rule: compose_e_acute.induct)
  case (1 a b r)
  show ?case
  proof (cases "a = 101 \<and> b = 769")
    case True
    then show ?thesis using 1 by (cases "compose_e_acute r") simp_all
  next
    case False
    obtain b' r' where c: "compose_e_acute (b # r) = b' # r'"
      using compose_e_acute_nonempty [of "b # r"] by (cases "compose_e_acute (b # r)") auto
    have "b' = b \<or> b' = 233" using hd_compose_e_acute [of "b # r"] c by simp
    then have "\<not> (a = 101 \<and> b' = 769)" using False by auto
    then have outer: "compose_e_acute (a # b' # r') = a # compose_e_acute (b' # r')" by auto
    have step: "compose_e_acute (a # b # r) = a # compose_e_acute (b # r)"
      using False by auto
    have "compose_e_acute (compose_e_acute (b # r)) = compose_e_acute (b # r)"
      using False 1 by blast
    then show ?thesis unfolding step c outer by simp
  qed
qed simp_all

lemma set_compose_e_acute: "c \<in> set (compose_e_acute s) \<Longrightarrow> c \<in> set s \<or> c = 233"
  by (induction s rule: compose_e_acute.induct) (auto split: if_splits)

lemma last_compose_e_acute:
  "s \<noteq> [] \<Longrightarrow> last (compose_e_acute s) = last s \<or> last (compose_e_acute s) = 233"
proof (induction s rule: compose_e_acute.induct)
  case (1 a b r)
  then show ?case
    using compose_e_acute_nonempty [of r] compose_e_acute_nonempty [of "b # r"]
    by (cases "r = []") auto
qed simp_all

lemma no_adjacent_spaces_compose:
  "no_adjacent_spaces s \<Longrightarrow> no_adjacent_spaces (compose_e_acute s)"
proof (induction s rule: compose_e_acute.induct)
  case (1 a b r)
  show ?case
  proof (cases "a = 101 \<and> b = 769")
    case True
    have "no_adjacent_spaces r" using "1.prems" by (cases r) simp_all
    then have "no_adjacent_spaces (compose_e_acute r)" using True 1 by simp
    then have "no_adjacent_spaces (233 # compose_e_acute r)"
      by (cases "compose_e_acute r") simp_all
    then show ?thesis using True by simp
  next
    case False
    obtain b' r' where c: "compose_e_acute (b # r) = b' # r'"
      using compose_e_acute_nonempty [of "b # r"] by (cases "compose_e_acute (b # r)") auto
    have b': "b' = b \<or> b' = 233" using hd_compose_e_acute [of "b # r"] c by simp
    have step: "compose_e_acute (a # b # r) = a # compose_e_acute (b # r)"
      using False by auto
    have "no_adjacent_spaces (b # r)" using "1.prems" by simp
    then have "no_adjacent_spaces (compose_e_acute (b # r))" using False 1 by blast
    then have "no_adjacent_spaces (b' # r')" by (simp add: c)
    moreover have "\<not> (a = 32 \<and> b' = 32)" using b' "1.prems" by auto
    ultimately show ?thesis unfolding step c by simp
  qed
qed simp_all

lemma single_spaced_compose:
  assumes "single_spaced s"
  shows "single_spaced (compose_e_acute s)"
proof -
  have n233: "\<not> is_space 233" by (simp add: is_space_def)
  have a: "\<forall>c\<in>set (compose_e_acute s). is_space c \<longrightarrow> c = 32"
    using assms n233 by (auto simp: single_spaced_def dest!: set_compose_e_acute)
  have b: "compose_e_acute s \<noteq> [] \<longrightarrow>
      \<not> is_space (hd (compose_e_acute s)) \<and> \<not> is_space (last (compose_e_acute s))"
  proof
    assume "compose_e_acute s \<noteq> []"
    then have ne: "s \<noteq> []" by (simp add: compose_e_acute_nonempty)
    then have "\<not> is_space (hd s)" "\<not> is_space (last s)"
      using assms by (simp_all add: single_spaced_def)
    then show "\<not> is_space (hd (compose_e_acute s)) \<and> \<not> is_space (last (compose_e_acute s))"
      using hd_compose_e_acute [OF ne] last_compose_e_acute [OF ne] n233 by auto
  qed
  have c: "no_adjacent_spaces (compose_e_acute s)"
    using assms by (simp add: single_spaced_def no_adjacent_spaces_compose)
  show ?thesis unfolding single_spaced_def using a b c by blast
qed

lemma compose_e_acute_collapsed:
  assumes "join_str [32] (split_ws s) = s"
  shows "join_str [32] (split_ws (compose_e_acute s)) = compose_e_acute s"
  using assms single_spaced_fixed_point single_spaced_compose single_spaced_join_split by blast

lemma sample_nfc:
  "join_str [32] (split_ws s) = s \<Longrightarrow>
   join_str [32] (split_ws (normalize_NFC (sample_env pages images) s)) =
     normalize_NFC (sample_env pages images) s"
  by (simp add: sample_env_def compose_e_acute_collapsed)

lemma sample_nfc_empty: "normalize_NFC (sample_env pages images) s = [] \<longleftrightarrow> s = []"
  by (simp add: sample_env_def compose_e_acute_nonempty)

section \<open>The normaliser\<close>

text \<open>
  Claim C5. The normalisation step (split on whitespace runs, rejoin with single spaces,
  then NFC) is idempotent: normalising a normalised text changes nothing. The NFC function
  is the parameter \<open>nfc\<close>; the two facts about Unicode's NFC that the property rests on
  are hypotheses: NFC is idempotent, and NFC maps a text that splitting and rejoining
  leaves unchanged to such a text (it neither creates nor removes whitespace).
\<close>

theorem normalize_idempotent:
  assumes nfc_idem: "\<And>s. nfc (nfc s) = nfc s"
    and nfc_ws: "\<And>s. join_str [32] (split_ws s) = s \<Longrightarrow> join_str [32] (split_ws (nfc s)) = nfc s"
  shows "normalize_text nfc (normalize_text nfc x) = normalize_text nfc x"
proof -
  let ?y = "join_str [32] (split_ws x)"
  have "join_str [32] (split_ws ?y) = ?y" by (rule join_split_idem)
  then have "join_str [32] (split_ws (nfc ?y)) = nfc ?y" by (rule nfc_ws)
  then show ?thesis by (simp add: normalize_text_def nfc_idem)
qed

theorem normalize_idempotent_witness:
  "normalize_text compose_e_acute [32, 101, 769, 9, 10, 6016, 32] = [233, 32, 6016] \<and>
   normalize_text compose_e_acute (normalize_text compose_e_acute [32, 101, 769, 9, 10, 6016, 32]) =
   normalize_text compose_e_acute [32, 101, 769, 9, 10, 6016, 32]"
proof -
  have a: "normalize_text compose_e_acute [32, 101, 769, 9, 10, 6016, 32] = [233, 32, 6016]"
    by (simp add: normalize_text_def split_ws_space split_ws_nonspace split_ws_Nil is_space_def)
  have b: "normalize_text compose_e_acute
      (normalize_text compose_e_acute [32, 101, 769, 9, 10, 6016, 32]) =
    normalize_text compose_e_acute [32, 101, 769, 9, 10, 6016, 32]"
    by (rule normalize_idempotent [of compose_e_acute, OF compose_e_acute_idem
          compose_e_acute_collapsed])
  show ?thesis using a b by simp
qed

section \<open>Traced results\<close>

lemmas run_defs = ret_def raise_def lib_def bind_def try_except_def

lemma bind_lib_Inl: "bind (lib c (Inl e)) f = ([c], Inl e)"
  by (simp add: run_defs)

lemma bind_lib_Inr: "bind (lib c (Inr v)) f = (c # fst (f v), snd (f v))"
  by (simp add: run_defs split: prod.splits)

lemma str_exn_cases:
  obtains (message) m where "str_exn e = Inr m" | (raising) e' where "str_exn e = Inl e'"
  by (cases "str_exn e") auto

lemma log_exn_text: "str_exn e = Inr m \<Longrightarrow> log_exn e = ret ()"
  by (simp add: log_exn_def)

lemma log_exn_raises: "str_exn e = Inl e' \<Longrightarrow> log_exn e = raise e'"
  by (simp add: log_exn_def)

lemma reraised_text: "str_exn e = Inr m \<Longrightarrow> reraised e = e"
  by (simp add: reraised_def)

lemma reraised_ValueError: "reraised (ValueError m) = ValueError m"
  by (simp add: reraised_def)

lemma try_log_reraise:
  "try_except m (\<lambda>e. bind (log_exn e) (\<lambda>_. raise e)) =
     (fst m, case snd m of Inl e \<Rightarrow> Inl (reraised e) | Inr v \<Rightarrow> Inr v)"
proof (cases m)
  case (Pair tr r)
  show ?thesis
  proof (cases r)
    case (Inl e)
    then show ?thesis
      using Pair
      by (cases e rule: str_exn_cases)
         (simp_all add: run_defs log_exn_def reraised_def)
  next
    case (Inr v)
    then show ?thesis using Pair by (simp add: try_except_def)
  qed
qed

lemma try_log_return:
  "try_except (tr, Inl e) (\<lambda>e. bind (log_exn e) (\<lambda>_. ret v)) =
     (tr, case str_exn e of Inl e' \<Rightarrow> Inl e' | Inr m \<Rightarrow> Inr v)"
  by (cases e rule: str_exn_cases) (simp_all add: run_defs log_exn_def)

lemma bind_Inl: "bind (tr, Inl e) f = (tr, Inl e)"
  by (simp add: bind_def)

lemma bind_Inr: "bind (tr, Inr v) f = (tr @ fst (f v), snd (f v))"
  by (simp add: bind_def split: prod.splits)

lemma try_Inl: "try_except (tr, Inl e) h = (tr @ fst (h e), snd (h e))"
  by (simp add: try_except_def split: prod.splits)

lemma try_Inr: "try_except (tr, Inr v) h = (tr, Inr v)"
  by (simp add: try_except_def)

lemmas sample_defs = sample_env_def sample_text_def sample_ocr_def unreadable_env_def
  unprintable_env_def truthy_def blank_def printable_def

lemmas eval_defs = parse_pdf_def detect_pdf_type_def parse_khmer_text_native_def
  parse_khmer_text_scanned_def run_defs log_exn_def normalize_text_def Let_def strip_ws_def
  split_ws_Nil split_ws_space split_ws_nonspace is_space_def

section \<open>The detector\<close>

lemma detect_pages_skip:
  "\<forall>q\<in>set pre. \<exists>t. extract_text E q = Inr t \<and> \<not> truthy t \<Longrightarrow>
   detect_pages E (pre @ rest) =
     (map ExtractText pre @ fst (detect_pages E rest), snd (detect_pages E rest))"
proof (induction pre)
  case Nil
  show ?case by simp
next
  case (Cons q pre)
  then obtain t where t: "extract_text E q = Inr t" "\<not> truthy t" by auto
  from Cons have "detect_pages E (pre @ rest) =
     (map ExtractText pre @ fst (detect_pages E rest), snd (detect_pages E rest))" by simp
  then show ?case using t by (simp add: bind_lib_Inr)
qed

lemma detect_pages_no_text:
  "\<forall>q\<in>set pages. \<exists>t. extract_text E q = Inr t \<and> \<not> truthy t \<Longrightarrow>
   detect_pages E pages = (map ExtractText pages, Inr ''scanned'')"
  using detect_pages_skip [of pages E "[]"] by (simp add: ret_def)

lemma detect_pages_first_text:
  assumes "\<forall>q\<in>set pre. \<exists>t. extract_text E q = Inr t \<and> \<not> truthy t"
    and "extract_text E p = Inr t" and "truthy t"
  shows "detect_pages E (pre @ p # post) = (map ExtractText (pre @ [p]), Inr ''native'')"
  using detect_pages_skip [OF assms(1), of "p # post"] assms(2,3)
  by (simp add: bind_lib_Inr ret_def)

lemma detect_pages_error:
  assumes "\<forall>q\<in>set pre. \<exists>t. extract_text E q = Inr t \<and> \<not> truthy t"
    and "extract_text E p = Inl e"
  shows "detect_pages E (pre @ p # post) = (map ExtractText (pre @ [p]), Inl e)"
  using detect_pages_skip [OF assms(1), of "p # post"] assms(2)
  by (simp add: bind_lib_Inl)

lemma detect_pages_result:
  "snd (detect_pages E pages) = Inr t \<Longrightarrow> t = ''native'' \<or> t = ''scanned''"
proof (induction pages)
  case Nil
  then show ?case by (simp add: ret_def)
next
  case (Cons q pages)
  show ?case
  proof (cases "extract_text E q")
    case (Inl e)
    with Cons.prems show ?thesis by (simp add: bind_lib_Inl)
  next
    case (Inr tx)
    with Cons show ?thesis by (simp add: bind_lib_Inr ret_def split: if_splits)
  qed
qed

lemma detect_pdf_type_open_error:
  "pdfplumber_open E path = Inl e \<Longrightarrow>
   detect_pdf_type E path =
     ([PdfOpen path], case str_exn e of Inl e' \<Rightarrow> Inl e' | Inr m \<Rightarrow> Inr ''scanned'')"
  by (simp add: detect_pdf_type_def bind_lib_Inl try_log_return)

lemma detect_pdf_type_opened:
  assumes o: "pdfplumber_open E path = Inr pages"
  shows "detect_pdf_type E path =
     (PdfOpen path # fst (detect_pages E pages),
      case snd (detect_pages E pages) of
        Inl e \<Rightarrow> (case str_exn e of Inl e' \<Rightarrow> Inl e' | Inr m \<Rightarrow> Inr ''scanned'')
      | Inr t \<Rightarrow> Inr t)"
proof -
  obtain a b where d: "detect_pages E pages = (a, b)"
    by (cases "detect_pages E pages")
  show ?thesis
    unfolding detect_pdf_type_def o bind_lib_Inr d
    by (cases b) (simp_all add: try_log_return try_Inr)
qed

lemma detect_pdf_type_returns:
  assumes t: "snd (detect_pdf_type E path) = Inr t"
  shows "t = ''native'' \<or> t = ''scanned''"
proof (cases "pdfplumber_open E path")
  case (Inl e)
  with t show ?thesis
    by (cases e rule: str_exn_cases) (simp_all add: detect_pdf_type_open_error)
next
  case (Inr pages)
  show ?thesis
  proof (cases "snd (detect_pages E pages)")
    case (Inl e)
    with t Inr show ?thesis
      by (cases e rule: str_exn_cases) (simp_all add: detect_pdf_type_opened)
  next
    case r: (Inr u)
    with t Inr have "u = t" by (simp add: detect_pdf_type_opened)
    with detect_pages_result [OF r] show ?thesis by simp
  qed
qed

text \<open>
  What the detector does when every exception it catches has a text: it returns
  \<open>'native'\<close> at the first page with text, having read no later page, and \<open>'scanned'\<close>
  when no page has text or a call raises.
\<close>

lemma detect_pdf_type_cases:
  "(pdfplumber_open E path = Inr (pre @ p # post) \<and>
      (\<forall>q\<in>set pre. \<exists>t. extract_text E q = Inr t \<and> \<not> truthy t) \<and>
      (\<exists>t. extract_text E p = Inr t \<and> truthy t) \<longrightarrow>
      detect_pdf_type E path = (PdfOpen path # map ExtractText (pre @ [p]), Inr ''native'')) \<and>
   (pdfplumber_open E path = Inr pages \<and>
      (\<forall>q\<in>set pages. \<exists>t. extract_text E q = Inr t \<and> \<not> truthy t) \<longrightarrow>
      detect_pdf_type E path = (PdfOpen path # map ExtractText pages, Inr ''scanned'')) \<and>
   (pdfplumber_open E path = Inr (pre @ p # post) \<and>
      (\<forall>q\<in>set pre. \<exists>t. extract_text E q = Inr t \<and> \<not> truthy t) \<and>
      extract_text E p = Inl e \<and> str_exn e = Inr m \<longrightarrow>
      detect_pdf_type E path = (PdfOpen path # map ExtractText (pre @ [p]), Inr ''scanned'')) \<and>
   (pdfplumber_open E path = Inl e \<and> str_exn e = Inr m \<longrightarrow>
      detect_pdf_type E path = ([PdfOpen path], Inr ''scanned''))"
proof (intro conjI impI)
  assume "pdfplumber_open E path = Inr (pre @ p # post) \<and>
      (\<forall>q\<in>set pre. \<exists>t. extract_text E q = Inr t \<and> \<not> truthy t) \<and>
      (\<exists>t. extract_text E p = Inr t \<and> truthy t)"
  then show "detect_pdf_type E path = (PdfOpen path # map ExtractText (pre @ [p]), Inr ''native'')"
    by (auto simp: detect_pdf_type_opened detect_pages_first_text)
next
  assume "pdfplumber_open E path = Inr pages \<and>
      (\<forall>q\<in>set pages. \<exists>t. extract_text E q = Inr t \<and> \<not> truthy t)"
  then show "detect_pdf_type E path = (PdfOpen path # map ExtractText pages, Inr ''scanned'')"
    by (simp add: detect_pdf_type_opened detect_pages_no_text)
next
  assume "pdfplumber_open E path = Inr (pre @ p # post) \<and>
      (\<forall>q\<in>set pre. \<exists>t. extract_text E q = Inr t \<and> \<not> truthy t) \<and>
      extract_text E p = Inl e \<and> str_exn e = Inr m"
  then show "detect_pdf_type E path = (PdfOpen path # map ExtractText (pre @ [p]), Inr ''scanned'')"
    by (simp add: detect_pdf_type_opened detect_pages_error)
next
  assume "pdfplumber_open E path = Inl e \<and> str_exn e = Inr m"
  then show "detect_pdf_type E path = ([PdfOpen path], Inr ''scanned'')"
    by (simp add: detect_pdf_type_open_error)
qed

text \<open>
  Claim C2 says that \<open>detect_pdf_type\<close> returns \<open>'scanned'\<close> whenever opening the file or
  reading a page raises, and never lets the error out. The handler builds its log message
  from the exception before it returns, so an exception whose \<open>__str__\<close> raises makes the
  detector raise: here when pdfplumber cannot open the file, and when the second page
  cannot be read.
\<close>

theorem detect_pdf_type_raises:
  "detect_pdf_type unprintable_env [100] =
     ([PdfOpen [100]], Inl (LibraryError ''__str__ failed'')) \<and>
   detect_pdf_type (sample_env [0, 4, 1] []) [100] =
     ([PdfOpen [100], ExtractText 0, ExtractText 4], Inl (LibraryError ''__str__ failed''))"
  by (simp add: sample_defs eval_defs)

section \<open>Native extraction\<close>

lemma native_pages_blank:
  "\<forall>q\<in>set pages. \<exists>t. extract_text E q = Inr t \<and> blank t \<Longrightarrow>
   \<forall>s\<in>set acc. \<forall>c\<in>set s. is_space c \<Longrightarrow>
   \<exists>ex. native_pages E pages acc = (map ExtractText pages, Inr ex) \<and>
        (\<forall>s\<in>set ex. \<forall>c\<in>set s. is_space c)"
proof (induction pages arbitrary: acc)
  case Nil
  then show ?case by (simp add: ret_def)
next
  case (Cons q pages)
  then obtain t where t: "extract_text E q = Inr t" "blank t" by auto
  let ?acc = "case t of None \<Rightarrow> acc | Some s \<Rightarrow> if s \<noteq> [] then acc @ [s] else acc"
  have acc: "\<forall>s\<in>set ?acc. \<forall>c\<in>set s. is_space c"
    using t(2) Cons.prems(2) by (auto simp: blank_def split: option.splits)
  have pages: "\<forall>q\<in>set pages. \<exists>t. extract_text E q = Inr t \<and> blank t"
    using Cons.prems(1) by simp
  from Cons.IH [OF pages acc] obtain ex where
    ex: "native_pages E pages ?acc = (map ExtractText pages, Inr ex)"
      "\<forall>s\<in>set ex. \<forall>c\<in>set s. is_space c"
    by blast
  have "native_pages E (q # pages) acc = (ExtractText q # map ExtractText pages, Inr ex)"
    using t(1) ex(1) by (simp add: bind_lib_Inr)
  then show ?case using ex(2) by simp
qed

lemma set_join_newline:
  "c \<in> set (join_str [10] xs) \<Longrightarrow> c = 10 \<or> (\<exists>x\<in>set xs. c \<in> set x)"
  by (induction "[10::nat]" xs rule: join_str.induct) auto

lemma set_join_newline_parts:
  "x \<in> set xs \<Longrightarrow> c \<in> set x \<Longrightarrow> c \<in> set (join_str [10] xs)"
  by (induction "[10::nat]" xs rule: join_str.induct) auto

lemma parse_khmer_text_native_open_error:
  "pdfplumber_open E path = Inl e \<Longrightarrow>
   parse_khmer_text_native E path = ([PdfOpen path], Inl (reraised e))"
  by (simp add: parse_khmer_text_native_def try_log_reraise bind_lib_Inl)

lemma parse_khmer_text_native_opened:
  "pdfplumber_open E path = Inr pages \<Longrightarrow>
   parse_khmer_text_native E path =
     (PdfOpen path # fst (native_pages E pages []),
      case snd (native_pages E pages []) of
        Inl e \<Rightarrow> Inl (reraised e)
      | Inr ex \<Rightarrow>
          if strip_ws (join_str [10] ex) = []
          then Inl (ValueError ''No text extracted. The PDF might be scanned images.'')
          else Inr (normalize_text (normalize_NFC E) (join_str [10] ex)))"
proof -
  assume o: "pdfplumber_open E path = Inr pages"
  obtain a b where nb: "native_pages E pages [] = (a, b)"
    by (cases "native_pages E pages []")
  show ?thesis
    unfolding parse_khmer_text_native_def try_log_reraise o bind_lib_Inr nb
    by (cases b) (simp_all add: bind_Inl bind_Inr Let_def ret_def raise_def reraised_ValueError)
qed

section \<open>OCR extraction\<close>

lemma scanned_pages_all_ok:
  "\<forall>i\<in>set imgs. image_to_string E i lang = Inr (f i) \<Longrightarrow>
   scanned_pages E imgs lang acc =
     (map (\<lambda>i. ImageToString i lang) imgs, Inr (acc @ map f imgs))"
  by (induction imgs arbitrary: acc) (simp_all add: ret_def bind_lib_Inr)

lemma scanned_pages_fails_iff:
  "(\<exists>e. snd (scanned_pages E imgs lang acc) = Inl e) \<longleftrightarrow>
   (\<exists>i\<in>set imgs. \<exists>e. image_to_string E i lang = Inl e)"
proof (induction imgs arbitrary: acc)
  case Nil
  show ?case by (simp add: ret_def)
next
  case (Cons i imgs)
  show ?case
  proof (cases "image_to_string E i lang")
    case (Inl e)
    then show ?thesis by (auto simp: bind_lib_Inl)
  next
    case (Inr tx)
    then show ?thesis using Cons [of "acc @ [tx]"] by (auto simp: bind_lib_Inr)
  qed
qed


lemma parse_khmer_text_scanned_convert_error:
  "convert_from_path E path 300 = Inl e \<Longrightarrow>
   parse_khmer_text_scanned E path lang = ([ConvertFromPath path 300], Inl (reraised e))"
  by (simp add: parse_khmer_text_scanned_def try_log_reraise bind_lib_Inl)

lemma parse_khmer_text_scanned_converted:
  "convert_from_path E path 300 = Inr imgs \<Longrightarrow>
   parse_khmer_text_scanned E path lang =
     (ConvertFromPath path 300 # fst (scanned_pages E imgs lang []),
      case snd (scanned_pages E imgs lang []) of
        Inl e \<Rightarrow> Inl (reraised e)
      | Inr ex \<Rightarrow> Inr (normalize_text (normalize_NFC E) (join_str [10] ex)))"
proof -
  assume o: "convert_from_path E path 300 = Inr imgs"
  obtain a b where nb: "scanned_pages E imgs lang [] = (a, b)"
    by (cases "scanned_pages E imgs lang []")
  show ?thesis
    unfolding parse_khmer_text_scanned_def try_log_reraise o bind_lib_Inr nb
    by (cases b) (simp_all add: bind_Inl bind_Inr Let_def ret_def)
qed


lemma parse_khmer_text_native_success:
  assumes t: "snd (parse_khmer_text_native E path) = Inr t"
  shows "\<exists>raw. strip_ws raw \<noteq> [] \<and> t = normalize_text (normalize_NFC E) raw"
proof (cases "pdfplumber_open E path")
  case (Inl e)
  with t show ?thesis by (simp add: parse_khmer_text_native_open_error)
next
  case (Inr pages)
  note opened = parse_khmer_text_native_opened [OF Inr]
  show ?thesis
  proof (cases "snd (native_pages E pages [])")
    case (Inl e)
    with t opened show ?thesis by simp
  next
    case ex: (Inr ex)
    show ?thesis
    proof (cases "strip_ws (join_str [10] ex) = []")
      case True
      with t opened ex show ?thesis by simp
    next
      case False
      with t opened ex have "t = normalize_text (normalize_NFC E) (join_str [10] ex)" by simp
      with False show ?thesis by blast
    qed
  qed
qed

lemma parse_khmer_text_scanned_success:
  assumes t: "snd (parse_khmer_text_scanned E path lang) = Inr t"
  shows "\<exists>raw. t = normalize_text (normalize_NFC E) raw"
proof (cases "convert_from_path E path 300")
  case (Inl e)
  with t show ?thesis by (simp add: parse_khmer_text_scanned_convert_error)
next
  case (Inr imgs)
  note conv = parse_khmer_text_scanned_converted [OF Inr, of lang]
  show ?thesis
  proof (cases "snd (scanned_pages E imgs lang [])")
    case (Inl e)
    with t conv show ?thesis by simp
  next
    case ex: (Inr ex)
    with t conv have "t = normalize_text (normalize_NFC E) (join_str [10] ex)" by simp
    then show ?thesis by blast
  qed
qed

section \<open>The orchestrator\<close>

lemma parse_pdf_detect_raises:
  assumes d: "snd (detect_pdf_type E path) = Inl e"
  shows "parse_pdf E path lang = (fst (detect_pdf_type E path), Inl e)"
proof -
  obtain tr0 where d': "detect_pdf_type E path = (tr0, Inl e)"
    using d by (cases "detect_pdf_type E path") simp
  show ?thesis unfolding parse_pdf_def d' by (simp add: bind_Inl)
qed

lemma parse_pdf_native_ok:
  assumes d: "snd (detect_pdf_type E path) = Inr ''native''"
    and n: "snd (parse_khmer_text_native E path) = Inr t"
  shows "parse_pdf E path lang =
    (fst (detect_pdf_type E path) @ fst (parse_khmer_text_native E path), Inr (Some t))"
proof -
  obtain tr0 where d': "detect_pdf_type E path = (tr0, Inr ''native'')"
    using d by (cases "detect_pdf_type E path") simp
  obtain tr1 where n': "parse_khmer_text_native E path = (tr1, Inr t)"
    using n by (cases "parse_khmer_text_native E path") simp
  show ?thesis
    unfolding parse_pdf_def d' n' by (simp add: bind_Inr try_Inr ret_def)
qed

lemma parse_pdf_native_failed:
  assumes d: "snd (detect_pdf_type E path) = Inr ''native''"
    and n: "snd (parse_khmer_text_native E path) = Inl e"
  shows "parse_pdf E path lang =
    (fst (detect_pdf_type E path) @ fst (parse_khmer_text_native E path) @
       fst (parse_khmer_text_scanned E path lang),
     case snd (parse_khmer_text_scanned E path lang) of
       Inl e' \<Rightarrow> (case str_exn e' of Inl e'' \<Rightarrow> Inl e'' | Inr m \<Rightarrow> Inr None)
     | Inr t \<Rightarrow> Inr (Some t))"
proof -
  obtain tr0 where d': "detect_pdf_type E path = (tr0, Inr ''native'')"
    using d by (cases "detect_pdf_type E path") simp
  obtain tr1 where n': "parse_khmer_text_native E path = (tr1, Inl e)"
    using n by (cases "parse_khmer_text_native E path") simp
  obtain tr2 r2 where s: "parse_khmer_text_scanned E path lang = (tr2, r2)"
    by (cases "parse_khmer_text_scanned E path lang")
  have inner: "try_except (bind (tr2, r2) (\<lambda>text. ret (Some text)))
        (\<lambda>e. bind (log_exn e) (\<lambda>_. ret None)) =
      (tr2, case r2 of
              Inl e' \<Rightarrow> (case str_exn e' of Inl e'' \<Rightarrow> Inl e'' | Inr m \<Rightarrow> Inr None)
            | Inr t \<Rightarrow> Inr (Some t))"
  proof (cases r2)
    case (Inl e')
    then show ?thesis by (simp add: bind_Inl try_log_return)
  next
    case (Inr t)
    then show ?thesis by (simp add: bind_Inr try_Inr ret_def)
  qed
  show ?thesis
    unfolding parse_pdf_def d' n' s
    by (simp add: bind_Inr bind_Inl try_Inl inner)
qed

lemma parse_pdf_scanned_branch:
  assumes d: "snd (detect_pdf_type E path) = Inr ''scanned''"
  shows "parse_pdf E path lang =
    (fst (detect_pdf_type E path) @ fst (parse_khmer_text_scanned E path lang),
     case snd (parse_khmer_text_scanned E path lang) of
       Inl e' \<Rightarrow> Inr None | Inr t \<Rightarrow> Inr (Some t))"
proof -
  obtain tr0 where d': "detect_pdf_type E path = (tr0, Inr ''scanned'')"
    using d by (cases "detect_pdf_type E path") simp
  obtain tr2 r2 where s: "parse_khmer_text_scanned E path lang = (tr2, r2)"
    by (cases "parse_khmer_text_scanned E path lang")
  show ?thesis
    unfolding parse_pdf_def d' s
    by (cases r2) (simp_all add: bind_Inr bind_Inl try_Inl try_Inr ret_def)
qed

text \<open>The ways in which a run of \<open>parse_pdf\<close> can go.\<close>

lemma parse_pdf_paths:
  obtains
    (detect_raises) e where "snd (detect_pdf_type E path) = Inl e"
  | (native_ok) t where "snd (detect_pdf_type E path) = Inr ''native''"
      "snd (parse_khmer_text_native E path) = Inr t"
  | (native_failed) e where "snd (detect_pdf_type E path) = Inr ''native''"
      "snd (parse_khmer_text_native E path) = Inl e"
  | (scanned) "snd (detect_pdf_type E path) = Inr ''scanned''"
proof (cases "snd (detect_pdf_type E path)")
  case (Inl e)
  then show ?thesis by (rule detect_raises)
next
  case (Inr t)
  from detect_pdf_type_returns [OF Inr] show ?thesis
  proof
    assume "t = ''native''"
    with Inr have d: "snd (detect_pdf_type E path) = Inr ''native''" by simp
    show ?thesis
    proof (cases "snd (parse_khmer_text_native E path)")
      case (Inl e)
      with d show ?thesis by (rule native_failed)
    next
      case n: (Inr u)
      with d show ?thesis by (rule native_ok)
    qed
  next
    assume "t = ''scanned''"
    with Inr have "snd (detect_pdf_type E path) = Inr ''scanned''" by simp
    then show ?thesis by (rule scanned)
  qed
qed

lemma parse_pdf_none:
  assumes r: "snd (parse_pdf E path lang) = Inr None"
  shows "\<exists>e. snd (parse_khmer_text_scanned E path lang) = Inl e"
proof (cases E path rule: parse_pdf_paths)
  case (detect_raises e)
  with r show ?thesis by (simp add: parse_pdf_detect_raises)
next
  case (native_ok t)
  with r show ?thesis by (simp add: parse_pdf_native_ok)
next
  case (native_failed e)
  with r show ?thesis
    by (cases "snd (parse_khmer_text_scanned E path lang)")
       (simp_all add: parse_pdf_native_failed)
next
  case scanned
  with r show ?thesis
    by (cases "snd (parse_khmer_text_scanned E path lang)")
       (simp_all add: parse_pdf_scanned_branch)
qed

lemma parse_pdf_some:
  assumes t: "snd (parse_pdf E path lang) = Inr (Some t)"
  shows "snd (parse_khmer_text_native E path) = Inr t \<or>
         snd (parse_khmer_text_scanned E path lang) = Inr t"
proof (cases E path rule: parse_pdf_paths)
  case (detect_raises e)
  with t show ?thesis by (simp add: parse_pdf_detect_raises)
next
  case (native_ok u)
  with t show ?thesis by (simp add: parse_pdf_native_ok)
next
  case (native_failed e)
  show ?thesis
  proof (cases "snd (parse_khmer_text_scanned E path lang)")
    case (Inl e')
    with t native_failed show ?thesis
      by (cases e' rule: str_exn_cases) (simp_all add: parse_pdf_native_failed)
  next
    case (Inr u)
    with t native_failed show ?thesis by (simp add: parse_pdf_native_failed)
  qed
next
  case scanned
  with t show ?thesis
    by (cases "snd (parse_khmer_text_scanned E path lang)")
       (simp_all add: parse_pdf_scanned_branch)
qed




text \<open>
  Claim C4 says that \<open>parse_pdf\<close> never raises. Two of its handlers build a log message
  from the caught exception: the one in \<open>detect_pdf_type\<close>, whose call stands outside every
  \<open>try\<close> of \<open>parse_pdf\<close>, and the one of the OCR fallback. An exception whose \<open>__str__\<close>
  raises makes \<open>parse_pdf\<close> raise at either place: on a file that pdfplumber cannot open,
  and on a document whose native extraction and OCR both fail.
\<close>

theorem parse_pdf_raises:
  "parse_pdf unprintable_env [100] [107] =
     ([PdfOpen [100]], Inl (LibraryError ''__str__ failed'')) \<and>
   parse_pdf (sample_env [1, 2] [6]) [100] [107] =
     ([PdfOpen [100], ExtractText 1, PdfOpen [100], ExtractText 1, ExtractText 2,
       ConvertFromPath [100] 300, ImageToString 6 [107]],
      Inl (LibraryError ''__str__ failed''))"
  by (simp add: sample_defs eval_defs)

text \<open>
  Claim C9. Whatever the detector returns is \<open>'native'\<close> or \<open>'scanned'\<close>, so the last
  branch of \<open>parse_pdf\<close> is never taken: whenever \<open>parse_pdf\<close> returns \<open>None\<close>, OCR was
  attempted and raised.
\<close>

theorem unknown_type_unreachable:
  "(\<forall>t. snd (detect_pdf_type E path) = Inr t \<longrightarrow> t = ''native'' \<or> t = ''scanned'') \<and>
   (snd (parse_pdf E path lang) = Inr None \<longrightarrow>
      (\<exists>e. snd (parse_khmer_text_scanned E path lang) = Inl e))"
  using detect_pdf_type_returns [of E path] parse_pdf_none [of E path lang]
  by blast

theorem unknown_type_unreachable_witness:
  "snd (parse_pdf unreadable_env [100] [107]) = Inr None \<and>
   snd (detect_pdf_type unreadable_env [100]) = Inr ''scanned'' \<and>
   snd (parse_khmer_text_scanned unreadable_env [100] [107]) =
     Inl (LibraryError ''cannot rasterize'')"
  using unknown_type_unreachable [where E = unreadable_env and path = "[100]" and lang = "[107]"]
  by (simp add: sample_defs eval_defs)

section \<open>Empty results\<close>

lemma join_words_empty_iff:
  "\<forall>w\<in>set ws. is_word w \<Longrightarrow> join_str [32] ws = [] \<longleftrightarrow> ws = []"
  using join_words_nonempty [of ws] by auto

lemma collapse_empty_iff: "join_str [32] (split_ws s) = [] \<longleftrightarrow> strip_ws s = []"
  using join_words_empty_iff [of "split_ws s"] split_ws_words [of _ s]
  by (simp add: split_ws_empty_iff strip_ws_empty_iff)

lemma normalize_text_fixed:
  assumes nfc_ws: "\<And>s. join_str [32] (split_ws s) = s \<Longrightarrow>
      join_str [32] (split_ws (nfc s)) = nfc s"
  shows "join_str [32] (split_ws (normalize_text nfc raw)) = normalize_text nfc raw"
  unfolding normalize_text_def by (rule nfc_ws) (rule join_split_idem)

lemma normalize_text_single_spaced:
  assumes nfc_ws: "\<And>s. join_str [32] (split_ws s) = s \<Longrightarrow>
      join_str [32] (split_ws (nfc s)) = nfc s"
  shows "single_spaced (normalize_text nfc raw)"
  by (rule single_spaced_fixed_point) (rule normalize_text_fixed [OF nfc_ws])

lemma normalize_text_empty_iff:
  assumes nfc_empty: "\<And>s. nfc s = [] \<longleftrightarrow> s = []"
  shows "normalize_text nfc raw = [] \<longleftrightarrow> strip_ws raw = []"
  by (simp add: normalize_text_def nfc_empty collapse_empty_iff)

lemma normalize_text_strip:
  assumes nfc_ws: "\<And>s. join_str [32] (split_ws s) = s \<Longrightarrow>
      join_str [32] (split_ws (nfc s)) = nfc s"
    and ne: "normalize_text nfc raw \<noteq> []"
  shows "strip_ws (normalize_text nfc raw) \<noteq> []"
proof
  assume "strip_ws (normalize_text nfc raw) = []"
  then have "join_str [32] (split_ws (normalize_text nfc raw)) = []"
    by (simp add: collapse_empty_iff)
  then have "normalize_text nfc raw = []"
    by (simp add: normalize_text_fixed [OF nfc_ws])
  with ne show False by simp
qed

lemma single_spaced_no_control:
  assumes "single_spaced t"
  shows "10 \<notin> set t \<and> 9 \<notin> set t"
proof -
  have "is_space 10" "is_space 9" by (simp_all add: is_space_def)
  with assms show ?thesis by (auto simp: single_spaced_def)
qed

lemma join_newline_all_space:
  "(\<forall>c\<in>set (join_str [10] xs). is_space c) \<longleftrightarrow> (\<forall>x\<in>set xs. \<forall>c\<in>set x. is_space c)"
proof
  assume a: "\<forall>c\<in>set (join_str [10] xs). is_space c"
  show "\<forall>x\<in>set xs. \<forall>c\<in>set x. is_space c"
  proof (intro ballI)
    fix x c
    assume "x \<in> set xs" "c \<in> set x"
    then have "c \<in> set (join_str [10] xs)" by (rule set_join_newline_parts)
    with a show "is_space c" by simp
  qed
next
  assume a: "\<forall>x\<in>set xs. \<forall>c\<in>set x. is_space c"
  show "\<forall>c\<in>set (join_str [10] xs). is_space c"
  proof
    fix c
    assume "c \<in> set (join_str [10] xs)"
    then have "c = 10 \<or> (\<exists>x\<in>set xs. c \<in> set x)" by (rule set_join_newline)
    with a is_space_10 show "is_space c" by auto
  qed
qed

lemma parse_khmer_text_native_blank:
  assumes o: "pdfplumber_open E path = Inr pages"
    and b: "\<forall>q\<in>set pages. \<exists>t. extract_text E q = Inr t \<and> blank t"
  shows "parse_khmer_text_native E path =
     (PdfOpen path # map ExtractText pages,
      Inl (ValueError ''No text extracted. The PDF might be scanned images.''))"
proof -
  from native_pages_blank [OF b, of "[]"] obtain ex where
    ex: "native_pages E pages [] = (map ExtractText pages, Inr ex)"
      "\<forall>s\<in>set ex. \<forall>c\<in>set s. is_space c"
    by auto
  from ex(2) have "strip_ws (join_str [10] ex) = []"
    by (simp add: strip_ws_empty_iff join_newline_all_space)
  then show ?thesis using ex(1) by (simp add: parse_khmer_text_native_opened [OF o])
qed

lemma parse_khmer_text_scanned_fails_iff:
  "(\<exists>e. snd (parse_khmer_text_scanned E path lang) = Inl e) \<longleftrightarrow>
   (\<exists>e. convert_from_path E path 300 = Inl e) \<or>
   (\<exists>imgs. convert_from_path E path 300 = Inr imgs \<and>
      (\<exists>i\<in>set imgs. \<exists>e. image_to_string E i lang = Inl e))"
proof (cases "convert_from_path E path 300")
  case (Inl e)
  then show ?thesis by (simp add: parse_khmer_text_scanned_convert_error)
next
  case (Inr imgs)
  have "(\<exists>e. snd (parse_khmer_text_scanned E path lang) = Inl e) \<longleftrightarrow>
      (\<exists>e. snd (scanned_pages E imgs lang []) = Inl e)"
    by (cases "snd (scanned_pages E imgs lang [])")
       (simp_all add: parse_khmer_text_scanned_converted [OF Inr])
  then show ?thesis using Inr by (simp add: scanned_pages_fails_iff)
qed

lemma parse_khmer_text_scanned_all_ok:
  assumes c: "convert_from_path E path 300 = Inr imgs"
    and ok: "\<forall>i\<in>set imgs. image_to_string E i lang = Inr (f i)"
  shows "parse_khmer_text_scanned E path lang =
     (ConvertFromPath path 300 # map (\<lambda>i. ImageToString i lang) imgs,
      Inr (normalize_text (normalize_NFC E) (join_str [10] (map f imgs))))"
  using scanned_pages_all_ok [OF ok, of "[]"]
  by (simp add: parse_khmer_text_scanned_converted [OF c])

text \<open>
  Claim C3. When every page of an opened document yields no text or only whitespace, native
  extraction raises the \<open>ValueError\<close> "No text extracted". OCR extraction raises exactly
  when rasterisation raises or the OCR call raises on some page; when every page's OCR
  output is empty or whitespace it returns (the normalised empty text).
\<close>

theorem empty_result_policy:
  "(pdfplumber_open E path = Inr pages \<and>
      (\<forall>q\<in>set pages. \<exists>t. extract_text E q = Inr t \<and> blank t) \<longrightarrow>
      parse_khmer_text_native E path =
        (PdfOpen path # map ExtractText pages,
         Inl (ValueError ''No text extracted. The PDF might be scanned images.''))) \<and>
   ((\<exists>e. snd (parse_khmer_text_scanned E path lang) = Inl e) \<longleftrightarrow>
      (\<exists>e. convert_from_path E path 300 = Inl e) \<or>
      (\<exists>imgs. convert_from_path E path 300 = Inr imgs \<and>
         (\<exists>i\<in>set imgs. \<exists>e. image_to_string E i lang = Inl e))) \<and>
   (convert_from_path E path 300 = Inr imgs \<and>
      (\<forall>i\<in>set imgs. \<exists>s. image_to_string E i lang = Inr s \<and> (\<forall>c\<in>set s. is_space c)) \<longrightarrow>
      snd (parse_khmer_text_scanned E path lang) = Inr (normalize_NFC E []))"
proof (intro conjI impI)
  assume "pdfplumber_open E path = Inr pages \<and>
      (\<forall>q\<in>set pages. \<exists>t. extract_text E q = Inr t \<and> blank t)"
  then show "parse_khmer_text_native E path =
        (PdfOpen path # map ExtractText pages,
         Inl (ValueError ''No text extracted. The PDF might be scanned images.''))"
    by (simp add: parse_khmer_text_native_blank)
next
  show "(\<exists>e. snd (parse_khmer_text_scanned E path lang) = Inl e) \<longleftrightarrow>
      (\<exists>e. convert_from_path E path 300 = Inl e) \<or>
      (\<exists>imgs. convert_from_path E path 300 = Inr imgs \<and>
         (\<exists>i\<in>set imgs. \<exists>e. image_to_string E i lang = Inl e))"
    by (rule parse_khmer_text_scanned_fails_iff)
next
  assume a: "convert_from_path E path 300 = Inr imgs \<and>
      (\<forall>i\<in>set imgs. \<exists>s. image_to_string E i lang = Inr s \<and> (\<forall>c\<in>set s. is_space c))"
  define f where "f i = (case image_to_string E i lang of Inr s \<Rightarrow> s | Inl _ \<Rightarrow> [])" for i
  have ok: "\<forall>i\<in>set imgs. image_to_string E i lang = Inr (f i)"
    using a by (auto simp: f_def)
  have sp: "\<forall>i\<in>set imgs. \<forall>c\<in>set (f i). is_space c"
    using a by (auto simp: f_def)
  then have "split_ws (join_str [10] (map f imgs)) = []"
    by (simp add: split_ws_empty_iff join_newline_all_space)
  then show "snd (parse_khmer_text_scanned E path lang) = Inr (normalize_NFC E [])"
    using a by (simp add: parse_khmer_text_scanned_all_ok [OF _ ok] normalize_text_def)
qed

theorem empty_result_policy_witness:
  "parse_khmer_text_native (sample_env [0, 3] [4, 4]) [100] =
     ([PdfOpen [100], ExtractText 0, ExtractText 3],
      Inl (ValueError ''No text extracted. The PDF might be scanned images.'')) \<and>
   snd (parse_khmer_text_scanned (sample_env [0, 3] [4, 4]) [100] [107]) = Inr [] \<and>
   (\<exists>e. snd (parse_khmer_text_scanned (sample_env [0, 3] [0, 2, 1]) [100] [107]) = Inl e) \<and>
   (\<exists>e. snd (parse_khmer_text_scanned unreadable_env [100] [107]) = Inl e)"
proof -
  have a: "parse_khmer_text_native (sample_env [0, 3] [4, 4]) [100] =
     ([PdfOpen [100], ExtractText 0, ExtractText 3],
      Inl (ValueError ''No text extracted. The PDF might be scanned images.''))"
    using empty_result_policy [where E = "sample_env [0, 3] [4, 4]" and path = "[100]"
        and pages = "[0, 3]"]
    by (simp add: sample_defs is_space_def)
  have b: "snd (parse_khmer_text_scanned (sample_env [0, 3] [4, 4]) [100] [107]) = Inr []"
    using empty_result_policy [where E = "sample_env [0, 3] [4, 4]" and path = "[100]"
        and lang = "[107]" and imgs = "[4, 4]"]
    by (simp add: sample_defs)
  have c: "\<exists>e. snd (parse_khmer_text_scanned (sample_env [0, 3] [0, 2, 1]) [100] [107]) = Inl e"
    using empty_result_policy [where E = "sample_env [0, 3] [0, 2, 1]" and path = "[100]"
        and lang = "[107]"]
    by (simp add: sample_defs)
  have d: "\<exists>e. snd (parse_khmer_text_scanned unreadable_env [100] [107]) = Inl e"
    using empty_result_policy [where E = unreadable_env and path = "[100]" and lang = "[107]"]
    by (simp add: sample_defs)
  show ?thesis using a b c d by simp
qed

section \<open>Image preprocessing\<close>

lemma preprocess_image_unfold:
  "preprocess_image E path =
     (case image_open E path of
        Inl e \<Rightarrow> ([ImageOpen path], Inl (reraised e))
      | Inr i0 \<Rightarrow>
     (case convert E ''L'' i0 of
        Inl e \<Rightarrow> ([ImageOpen path, Convert ''L''], Inl (reraised e))
      | Inr i1 \<Rightarrow>
     (case contrast_enhance E 2 i1 of
        Inl e \<Rightarrow> ([ImageOpen path, Convert ''L'', ContrastEnhance 2], Inl (reraised e))
      | Inr i2 \<Rightarrow>
     (case point E threshold ''1'' i2 of
        Inl e \<Rightarrow>
          ([ImageOpen path, Convert ''L'', ContrastEnhance 2, Point ''1''], Inl (reraised e))
      | Inr i3 \<Rightarrow>
          ([ImageOpen path, Convert ''L'', ContrastEnhance 2, Point ''1'', MedianFilter],
           case median_filter E i3 of
             Inl e \<Rightarrow> Inl (reraised e)
           | Inr out \<Rightarrow> Inr out)))))"
proof -
  have last_step: "bind (lib MedianFilter r) (\<lambda>img. ret img) = ([MedianFilter], r)"
    for r :: "exn + 'b"
    by (cases r) (simp_all add: bind_lib_Inl bind_lib_Inr ret_def)
  show ?thesis
    unfolding preprocess_image_def try_log_reraise
    by (simp add: bind_lib_Inl bind_lib_Inr last_step split: sum.splits)
qed

lemma preprocess_image_success:
  assumes out: "snd (preprocess_image E path) = Inr out"
  shows "\<exists>i0 i1 i2 i3.
         image_open E path = Inr i0 \<and> convert E ''L'' i0 = Inr i1 \<and>
         contrast_enhance E 2 i1 = Inr i2 \<and> point E threshold ''1'' i2 = Inr i3 \<and>
         median_filter E i3 = Inr out"
proof -
  from out obtain i0 where i0: "image_open E path = Inr i0"
    by (cases "image_open E path") (simp_all add: preprocess_image_unfold)
  from out i0 obtain i1 where i1: "convert E ''L'' i0 = Inr i1"
    by (cases "convert E ''L'' i0") (simp_all add: preprocess_image_unfold)
  from out i0 i1 obtain i2 where i2: "contrast_enhance E 2 i1 = Inr i2"
    by (cases "contrast_enhance E 2 i1") (simp_all add: preprocess_image_unfold)
  from out i0 i1 i2 obtain i3 where i3: "point E threshold ''1'' i2 = Inr i3"
    by (cases "point E threshold ''1'' i2") (simp_all add: preprocess_image_unfold)
  from out i0 i1 i2 i3 have "median_filter E i3 = Inr out"
    by (cases "median_filter E i3") (simp_all add: preprocess_image_unfold)
  with i0 i1 i2 i3 show ?thesis by blast
qed

text \<open>
  Claim C6. For a readable image \<open>preprocess_image\<close> makes the four Pillow calls in a
  fixed order: conversion to mode \<open>L\<close>, contrast enhancement by the factor 2, thresholding
  into mode \<open>1\<close> and the median filter. While no call raises, every one of them is made,
  on the result of the one before, and the image returned is the result of the median
  filter (when the median filter raises, \<open>preprocess_image\<close> raises); every returned image
  went through all four. The thresholding function maps a value below 140 to 0 and every
  other value to 255.
\<close>

theorem preprocess_steps:
  "(image_open E path = Inr i0 \<and> convert E ''L'' i0 = Inr i1 \<and>
    contrast_enhance E 2 i1 = Inr i2 \<and> point E threshold ''1'' i2 = Inr i3 \<longrightarrow>
      preprocess_image E path =
        ([ImageOpen path, Convert ''L'', ContrastEnhance 2, Point ''1'', MedianFilter],
         case median_filter E i3 of Inl e \<Rightarrow> Inl (reraised e) | Inr out \<Rightarrow> Inr out)) \<and>
   (snd (preprocess_image E path) = Inr out \<longrightarrow>
      fst (preprocess_image E path) =
        [ImageOpen path, Convert ''L'', ContrastEnhance 2, Point ''1'', MedianFilter] \<and>
      (\<exists>i0 i1 i2 i3.
         image_open E path = Inr i0 \<and> convert E ''L'' i0 = Inr i1 \<and>
         contrast_enhance E 2 i1 = Inr i2 \<and> point E threshold ''1'' i2 = Inr i3 \<and>
         median_filter E i3 = Inr out)) \<and>
   (\<forall>x. (threshold x = 0 \<longleftrightarrow> x < 140) \<and> (threshold x = 255 \<longleftrightarrow> 140 \<le> x))"
proof (intro conjI impI allI)
  assume "image_open E path = Inr i0 \<and> convert E ''L'' i0 = Inr i1 \<and>
    contrast_enhance E 2 i1 = Inr i2 \<and> point E threshold ''1'' i2 = Inr i3"
  then show "preprocess_image E path =
        ([ImageOpen path, Convert ''L'', ContrastEnhance 2, Point ''1'', MedianFilter],
         case median_filter E i3 of Inl e \<Rightarrow> Inl (reraised e) | Inr out \<Rightarrow> Inr out)"
    by (simp add: preprocess_image_unfold)
next
  assume "snd (preprocess_image E path) = Inr out"
  from preprocess_image_success [OF this] obtain i0 i1 i2 i3 where
    "image_open E path = Inr i0" "convert E ''L'' i0 = Inr i1"
    "contrast_enhance E 2 i1 = Inr i2" "point E threshold ''1'' i2 = Inr i3"
    by blast
  then show "fst (preprocess_image E path) =
        [ImageOpen path, Convert ''L'', ContrastEnhance 2, Point ''1'', MedianFilter]"
    by (simp add: preprocess_image_unfold)
next
  assume "snd (preprocess_image E path) = Inr out"
  then show "\<exists>i0 i1 i2 i3.
         image_open E path = Inr i0 \<and> convert E ''L'' i0 = Inr i1 \<and>
         contrast_enhance E 2 i1 = Inr i2 \<and> point E threshold ''1'' i2 = Inr i3 \<and>
         median_filter E i3 = Inr out"
    by (rule preprocess_image_success)
next
  fix x
  show "threshold x = 0 \<longleftrightarrow> x < 140" by (simp add: threshold_def)
  show "threshold x = 255 \<longleftrightarrow> 140 \<le> x" by (simp add: threshold_def)
qed

theorem preprocess_steps_witness:
  "preprocess_image pixel_env [97] =
     ([ImageOpen [97], Convert ''L'', ContrastEnhance 2, Point ''1'', MedianFilter],
      Inr [0, 255, 255, 255]) \<and>
   threshold 139 = 0 \<and> threshold 140 = 255"
proof -
  note steps = preprocess_steps [where E = pixel_env and path = "[97]"
      and ?i0.0 = "[12, 200, 139, 140]" and ?i1.0 = "[12, 200, 139, 140]"
      and ?i2.0 = "[0, 255, 150, 152]" and ?i3.0 = "[0, 255, 255, 255]"
      and out = "[0, 255, 255, 255]"]
  have opened: "image_open pixel_env [97] = Inr [12, 200, 139, 140]"
    by (simp add: pixel_env_def)
  have grey: "convert pixel_env ''L'' [12, 200, 139, 140] = Inr [12, 200, 139, 140]"
    by (simp add: pixel_env_def)
  have contrast: "contrast_enhance pixel_env 2 [12, 200, 139, 140] = Inr [0, 255, 150, 152]"
    by (simp add: pixel_env_def)
  have binary: "point pixel_env threshold ''1'' [0, 255, 150, 152] = Inr [0, 255, 255, 255]"
    by (simp add: pixel_env_def threshold_def)
  have median: "median_filter pixel_env [0, 255, 255, 255] = Inr [0, 255, 255, 255]"
    by (simp add: pixel_env_def)
  from steps opened grey contrast binary
  have a: "preprocess_image pixel_env [97] =
     ([ImageOpen [97], Convert ''L'', ContrastEnhance 2, Point ''1'', MedianFilter],
      case median_filter pixel_env [0, 255, 255, 255] of
        Inl e \<Rightarrow> Inl (reraised e) | Inr out \<Rightarrow> Inr out)"
    by blast
  from steps have b: "\<forall>x. (threshold x = 0 \<longleftrightarrow> x < 140) \<and> (threshold x = 255 \<longleftrightarrow> 140 \<le> x)"
    by blast
  from b have "threshold 139 = 0" "threshold 140 = 255" by simp_all
  with a median show ?thesis by simp
qed

section \<open>The shape of the returned text\<close>

lemma extract_text_from_image_result:
  "extract_text_from_image E img lang =
     ([ImageToString img lang],
      case image_to_string E img lang of
        Inl e \<Rightarrow> Inl (reraised e)
      | Inr tx \<Rightarrow> Inr (normalize_text (normalize_NFC E) tx))"
  unfolding extract_text_from_image_def try_log_reraise
  by (cases "image_to_string E img lang") (simp_all add: bind_lib_Inl bind_lib_Inr ret_def)

lemma extract_text_from_image_success:
  assumes "snd (extract_text_from_image E img lang) = Inr t"
  shows "\<exists>raw. t = normalize_text (normalize_NFC E) raw"
  using assms
  by (cases "image_to_string E img lang") (auto simp: extract_text_from_image_result)

lemma parse_image_some:
  assumes t: "snd (parse_image E path outp lang) = Inr (Some t)"
  shows "\<exists>img. snd (preprocess_image E path) = Inr img \<and>
           snd (extract_text_from_image E img lang) = Inr t"
proof -
  obtain tr r where p: "preprocess_image E path = (tr, r)"
    by (cases "preprocess_image E path")
  show ?thesis
  proof (cases r)
    case (Inl e)
    with t p show ?thesis
      by (cases e rule: str_exn_cases) (simp_all add: parse_image_def bind_Inl try_log_return)
  next
    case (Inr img)
    obtain tr' r' where x: "extract_text_from_image E img lang = (tr', r')"
      by (cases "extract_text_from_image E img lang")
    show ?thesis
    proof (cases r')
      case e: (Inl e)
      with t p Inr x show ?thesis
        by (cases e rule: str_exn_cases)
           (simp_all add: parse_image_def bind_Inl bind_Inr try_log_return)
    next
      case u: (Inr u)
      with t p Inr x show ?thesis
        by (simp add: parse_image_def bind_Inl bind_Inr try_Inr ret_def)
    qed
  qed
qed

text \<open>
  Claim C10. A text returned by native extraction, by OCR extraction, by the OCR of a
  single image, by \<open>parse_pdf\<close> or by \<open>parse_image\<close> has single spaces as its only
  whitespace: no whitespace at either end, no two spaces in a row, no tab and no line
  feed, so the line feeds put between the pages are gone. NFC is the parameter of the
  model; that it keeps a whitespace-collapsed text whitespace-collapsed is a hypothesis.
\<close>

theorem output_single_spaced:
  assumes nfc_ws: "\<And>s. join_str [32] (split_ws s) = s \<Longrightarrow>
      join_str [32] (split_ws (normalize_NFC E s)) = normalize_NFC E s"
  shows "(snd (parse_khmer_text_native E path) = Inr t \<or>
          snd (parse_khmer_text_scanned E path lang) = Inr t \<or>
          snd (extract_text_from_image E img lang) = Inr t \<or>
          snd (parse_pdf E path lang) = Inr (Some t) \<or>
          snd (parse_image E path outp lang) = Inr (Some t)) \<longrightarrow>
         single_spaced t \<and> 10 \<notin> set t \<and> 9 \<notin> set t"
proof
  assume "snd (parse_khmer_text_native E path) = Inr t \<or>
          snd (parse_khmer_text_scanned E path lang) = Inr t \<or>
          snd (extract_text_from_image E img lang) = Inr t \<or>
          snd (parse_pdf E path lang) = Inr (Some t) \<or>
          snd (parse_image E path outp lang) = Inr (Some t)"
  then have "\<exists>raw. t = normalize_text (normalize_NFC E) raw"
    using parse_khmer_text_native_success [of E path t]
      parse_khmer_text_scanned_success [of E path lang t]
      extract_text_from_image_success [of E _ lang t]
      parse_pdf_some [of E path lang t] parse_image_some [of E path outp lang t]
    by blast
  then obtain raw where "t = normalize_text (normalize_NFC E) raw" ..
  then have "single_spaced t"
    using normalize_text_single_spaced [of "normalize_NFC E" raw] nfc_ws by simp
  then show "single_spaced t \<and> 10 \<notin> set t \<and> 9 \<notin> set t"
    using single_spaced_no_control by blast
qed

theorem output_single_spaced_witness:
  "snd (parse_khmer_text_scanned (sample_env [] [0, 1]) [100] [107]) =
     Inr [6047, 6077, 32, 6016, 32, 6017] \<and>
   snd (parse_khmer_text_scanned (sample_env [] [5]) [100] [107]) =
     Inr [6047, 6077, 32, 6016, 32, 6017] \<and>
   single_spaced [6047, 6077, 32, 6016, 32, 6017] \<and>
   10 \<notin> set [6047, 6077, 32, 6016, 32, 6017 :: nat]"
proof -
  have a: "snd (parse_khmer_text_scanned (sample_env [] [0, 1]) [100] [107]) =
     Inr [6047, 6077, 32, 6016, 32, 6017]"
    by (simp add: sample_defs eval_defs)
  have b: "snd (parse_khmer_text_scanned (sample_env [] [5]) [100] [107]) =
     Inr [6047, 6077, 32, 6016, 32, 6017]"
    by (simp add: sample_defs eval_defs)
  from a output_single_spaced [of "sample_env [] [0, 1]" "[100]"
      "[6047, 6077, 32, 6016, 32, 6017]" "[107]" 0 None, OF sample_nfc]
  have "single_spaced [6047, 6077, 32, 6016, 32, 6017] \<and>
      10 \<notin> set [6047, 6077, 32, 6016, 32, 6017 :: nat] \<and>
      9 \<notin> set [6047, 6077, 32, 6016, 32, 6017 :: nat]"
    by blast
  with a b show ?thesis by blast
qed

section \<open>Non-empty results\<close>

text \<open>
  Claim C8 as stated fails for OCR extraction: on a document whose two pages give empty
  OCR output, \<open>parse_khmer_text_scanned\<close> returns the empty text, and stripping the
  empty text leaves it empty.
\<close>

theorem ocr_empty_text_counterexample:
  "snd (parse_khmer_text_scanned (sample_env [0, 3] [4, 4]) [100] [107]) = Inr [] \<and>
   strip_ws ([] :: ustring) = []"
  by (simp add: sample_defs eval_defs)

lemma scanned_text_empty_iff:
  assumes nfc_ws: "\<And>s. join_str [32] (split_ws s) = s \<Longrightarrow>
      join_str [32] (split_ws (normalize_NFC E s)) = normalize_NFC E s"
    and nfc_empty: "\<And>s. normalize_NFC E s = [] \<longleftrightarrow> s = []"
    and t': "snd (parse_khmer_text_scanned E path lang) = Inr t'"
    and c: "convert_from_path E path 300 = Inr imgs"
    and ok: "\<forall>i\<in>set imgs. image_to_string E i lang = Inr (f i)"
  shows "(t' = [] \<longleftrightarrow> (\<forall>i\<in>set imgs. \<forall>c\<in>set (f i). is_space c)) \<and>
         (t' \<noteq> [] \<longrightarrow> strip_ws t' \<noteq> [])"
proof -
  have eq: "t' = normalize_text (normalize_NFC E) (join_str [10] (map f imgs))"
    using parse_khmer_text_scanned_all_ok [OF c ok] t' by simp
  have "t' = [] \<longleftrightarrow> strip_ws (join_str [10] (map f imgs)) = []"
    unfolding eq using normalize_text_empty_iff [of "normalize_NFC E"] nfc_empty by simp
  then have a: "t' = [] \<longleftrightarrow> (\<forall>i\<in>set imgs. \<forall>c\<in>set (f i). is_space c)"
    by (simp add: strip_ws_empty_iff join_newline_all_space)
  have b: "strip_ws t' \<noteq> []" if ne: "t' \<noteq> []"
  proof -
    have "strip_ws (normalize_text (normalize_NFC E) (join_str [10] (map f imgs))) \<noteq> []"
    proof (rule normalize_text_strip)
      show "\<And>s. join_str [32] (split_ws s) = s \<Longrightarrow>
          join_str [32] (split_ws (normalize_NFC E s)) = normalize_NFC E s"
        by (rule nfc_ws)
      show "normalize_text (normalize_NFC E) (join_str [10] (map f imgs)) \<noteq> []"
        using ne by (simp add: eq)
    qed
    then show ?thesis by (simp add: eq)
  qed
  from a b show ?thesis by blast
qed

lemma native_text_strip:
  assumes nfc_ws: "\<And>s. join_str [32] (split_ws s) = s \<Longrightarrow>
      join_str [32] (split_ws (normalize_NFC E s)) = normalize_NFC E s"
    and nfc_empty: "\<And>s. normalize_NFC E s = [] \<longleftrightarrow> s = []"
    and t: "snd (parse_khmer_text_native E path) = Inr t"
  shows "strip_ws t \<noteq> []"
proof -
  from t obtain raw where raw: "strip_ws raw \<noteq> []" "t = normalize_text (normalize_NFC E) raw"
    using parse_khmer_text_native_success by blast
  then have ne: "normalize_text (normalize_NFC E) raw \<noteq> []"
    using normalize_text_empty_iff [of "normalize_NFC E" raw] nfc_empty by simp
  have "strip_ws (normalize_text (normalize_NFC E) raw) \<noteq> []"
  proof (rule normalize_text_strip)
    show "\<And>s. join_str [32] (split_ws s) = s \<Longrightarrow>
        join_str [32] (split_ws (normalize_NFC E s)) = normalize_NFC E s"
      by (rule nfc_ws)
    show "normalize_text (normalize_NFC E) raw \<noteq> []" by (rule ne)
  qed
  then show ?thesis by (simp add: raw(2))
qed

text \<open>
  Claim C8, as amended. A text returned by native extraction is non-empty after stripping.
  A text returned by OCR extraction is empty exactly when the OCR output of every page is
  empty or whitespace, and is non-empty after stripping otherwise. The two facts about NFC
  that this rests on are hypotheses: NFC keeps a whitespace-collapsed text
  whitespace-collapsed, and maps only the empty text to the empty text.
\<close>

theorem native_text_nonempty:
  assumes nfc_ws: "\<And>s. join_str [32] (split_ws s) = s \<Longrightarrow>
      join_str [32] (split_ws (normalize_NFC E s)) = normalize_NFC E s"
    and nfc_empty: "\<And>s. normalize_NFC E s = [] \<longleftrightarrow> s = []"
  shows "(snd (parse_khmer_text_native E path) = Inr t \<longrightarrow> strip_ws t \<noteq> []) \<and>
         (snd (parse_khmer_text_scanned E path lang) = Inr t' \<and>
          convert_from_path E path 300 = Inr imgs \<and>
          (\<forall>i\<in>set imgs. image_to_string E i lang = Inr (f i)) \<longrightarrow>
            (t' = [] \<longleftrightarrow> (\<forall>i\<in>set imgs. \<forall>c\<in>set (f i). is_space c)) \<and>
            (t' \<noteq> [] \<longrightarrow> strip_ws t' \<noteq> []))"
proof (rule conjI)
  show "snd (parse_khmer_text_native E path) = Inr t \<longrightarrow> strip_ws t \<noteq> []"
    using native_text_strip [of E path t] nfc_ws nfc_empty by blast
next
  show "snd (parse_khmer_text_scanned E path lang) = Inr t' \<and>
          convert_from_path E path 300 = Inr imgs \<and>
          (\<forall>i\<in>set imgs. image_to_string E i lang = Inr (f i)) \<longrightarrow>
            (t' = [] \<longleftrightarrow> (\<forall>i\<in>set imgs. \<forall>c\<in>set (f i). is_space c)) \<and>
            (t' \<noteq> [] \<longrightarrow> strip_ws t' \<noteq> [])"
  proof
    assume a: "snd (parse_khmer_text_scanned E path lang) = Inr t' \<and>
          convert_from_path E path 300 = Inr imgs \<and>
          (\<forall>i\<in>set imgs. image_to_string E i lang = Inr (f i))"
    show "(t' = [] \<longleftrightarrow> (\<forall>i\<in>set imgs. \<forall>c\<in>set (f i). is_space c)) \<and>
            (t' \<noteq> [] \<longrightarrow> strip_ws t' \<noteq> [])"
    proof (rule scanned_text_empty_iff)
      show "\<And>s. join_str [32] (split_ws s) = s \<Longrightarrow>
          join_str [32] (split_ws (normalize_NFC E s)) = normalize_NFC E s"
        by (rule nfc_ws)
      show "\<And>s. normalize_NFC E s = [] \<longleftrightarrow> s = []" by (rule nfc_empty)
      show "snd (parse_khmer_text_scanned E path lang) = Inr t'" using a by simp
      show "convert_from_path E path 300 = Inr imgs" using a by simp
      show "\<forall>i\<in>set imgs. image_to_string E i lang = Inr (f i)" using a by simp
    qed
  qed
qed

theorem native_text_nonempty_witness:
  "snd (parse_khmer_text_native (sample_env [0, 1] [0, 1]) [100]) = Inr [6047, 6077] \<and>
   strip_ws [6047, 6077] \<noteq> [] \<and>
   snd (parse_khmer_text_scanned (sample_env [0, 1] [0, 1]) [100] [107]) =
     Inr [6047, 6077, 32, 6016, 32, 6017] \<and>
   strip_ws [6047, 6077, 32, 6016, 32, 6017] \<noteq> [] \<and>
   snd (parse_khmer_text_scanned (sample_env [0, 1] [4, 4]) [100] [107]) = Inr []"
proof -
  have n: "snd (parse_khmer_text_native (sample_env [0, 1] [0, 1]) [100]) = Inr [6047, 6077]"
    by (simp add: sample_defs eval_defs)
  have s: "snd (parse_khmer_text_scanned (sample_env [0, 1] [0, 1]) [100] [107]) =
     Inr [6047, 6077, 32, 6016, 32, 6017]"
    by (simp add: sample_defs eval_defs)
  have c: "convert_from_path (sample_env [0, 1] [0, 1]) [100] 300 = Inr [0, 1]"
    by (simp add: sample_defs)
  have o: "\<forall>i\<in>set [0, 1]. image_to_string (sample_env [0, 1] [0, 1]) i [107] =
      Inr (if i = 0 then [6047, 6077, 10] else [32, 6016, 9, 6017])"
    by (simp add: sample_defs)
  note inst = native_text_nonempty [of "sample_env [0, 1] [0, 1]" "[100]" "[6047, 6077]" "[107]"
      "[6047, 6077, 32, 6016, 32, 6017]" "[0, 1]"
      "\<lambda>i. if i = 0 then [6047, 6077, 10] else [32, 6016, 9, 6017]",
      OF sample_nfc sample_nfc_empty]
  from inst n have a: "strip_ws [6047, 6077] \<noteq> []" by blast
  from inst s c o have b: "strip_ws [6047, 6077, 32, 6016, 32, 6017] \<noteq> []" by blast
  have e: "snd (parse_khmer_text_scanned (sample_env [0, 1] [4, 4]) [100] [107]) = Inr []"
    by (simp add: sample_defs eval_defs)
  show ?thesis using n s a b e by blast
qed

end
